theory Spec2Isabelle
  imports Complex_Main "HOL-Library.Word"
begin

section \<open>JavaScript values\<close>

text \<open>
  The worker is TypeScript: every value that crosses the HTTP boundary is a JSON value,
  and the type annotations (\<^verbatim>\<open>as string\<close>, \<^verbatim>\<open>json<CreateMemoryRequest>()\<close>)
  are erased at run time. The model therefore computes on untyped JavaScript values.

  A JavaScript string is a sequence of UTF-16 code units. Numbers are modelled as exact
  rationals with \<open>NaN\<close> and the two infinities: the rounding of doubles and the
  sign of zero are not modelled. An object is its list of own properties in insertion
  order (the reordering of integer-like keys is not modelled).
\<close>

type_synonym jsstring = "16 word list"

definition js :: "string \<Rightarrow> jsstring" where
  "js s = map of_char s"

datatype jsnum = NaN | Fin rat | PosInf | NegInf

datatype jsval =
    JUndefined
  | JNull
  | JBool bool
  | JNum jsnum
  | JStr jsstring
  | JArr "jsval list"
  | JObj "(jsstring \<times> jsval) list"

datatype js_error = TypeError | SyntaxError | NetworkError | ProviderError

text \<open>\<^verbatim>\<open>!v\<close> is \<open>\<not> truthy v\<close>.\<close>

fun truthy :: "jsval \<Rightarrow> bool" where
  "truthy JUndefined = False"
| "truthy JNull = False"
| "truthy (JBool b) = b"
| "truthy (JNum x) = (x \<noteq> NaN \<and> x \<noteq> Fin 0)"
| "truthy (JStr s) = (s \<noteq> [])"
| "truthy (JArr xs) = True"
| "truthy (JObj ps) = True"

definition nullish :: "jsval \<Rightarrow> bool" where
  "nullish v = (v = JUndefined \<or> v = JNull)"

text \<open>\<^verbatim>\<open>a || b\<close>\<close>

definition or_else :: "jsval \<Rightarrow> jsval \<Rightarrow> jsval" where
  "or_else a b = (if truthy a then a else b)"

fun typeof :: "jsval \<Rightarrow> jsstring" where
  "typeof JUndefined = js ''undefined''"
| "typeof JNull = js ''object''"
| "typeof (JBool b) = js ''boolean''"
| "typeof (JNum x) = js ''number''"
| "typeof (JStr s) = js ''string''"
| "typeof (JArr xs) = js ''object''"
| "typeof (JObj ps) = js ''object''"

subsection \<open>Numbers as text\<close>

fun show_nat :: "nat \<Rightarrow> jsstring" where
  "show_nat n = (if n < 10 then [of_nat (48 + n)] else show_nat (n div 10) @ [of_nat (48 + n mod 10)])"

declare show_nat.simps [simp del]

text \<open>The digits after the decimal point of \<open>r / d\<close>, for \<open>r < d\<close>, at most \<open>k\<close> of them.\<close>

fun frac_digits :: "nat \<Rightarrow> nat \<Rightarrow> nat \<Rightarrow> jsstring" where
  "frac_digits 0 r d = []"
| "frac_digits (Suc k) r d =
     (if r = 0 then [] else of_nat (48 + (10 * r) div d) # frac_digits k ((10 * r) mod d) d)"

text \<open>
  \<^verbatim>\<open>Number.prototype.toString\<close> on a finite number: the decimal expansion. The
  exponent notation of very large and very small doubles is not modelled.
\<close>

definition rat_text :: "rat \<Rightarrow> jsstring" where
  "rat_text q =
     (let (a, b) = quotient_of q; n = nat \<bar>a\<bar>; d = nat b
      in (if a < 0 then js ''-'' else []) @ show_nat (n div d) @
         (if n mod d = 0 then [] else js ''.'' @ frac_digits 20 (n mod d) d))"

fun num_text :: "jsnum \<Rightarrow> jsstring" where
  "num_text NaN = js ''NaN''"
| "num_text (Fin q) = rat_text q"
| "num_text PosInf = js ''Infinity''"
| "num_text NegInf = js ''-Infinity''"

text \<open>\<^verbatim>\<open>x.toFixed(1)\<close>: one digit after the point, ties rounded away from zero.\<close>

definition toFixed1 :: "jsnum \<Rightarrow> jsstring" where
  "toFixed1 x =
     (case x of
        Fin q \<Rightarrow>
          (let n = nat \<lfloor>\<bar>q\<bar> * 10 + 1 / 2\<rfloor>
           in (if q < 0 then js ''-'' else []) @ show_nat (n div 10) @ js ''.'' @ show_nat (n mod 10))
      | _ \<Rightarrow> num_text x)"

fun num_times :: "jsnum \<Rightarrow> rat \<Rightarrow> jsnum" where
  "num_times (Fin q) k = Fin (q * k)"
| "num_times x k = (if k = 0 then NaN else if 0 < k then x else (case x of PosInf \<Rightarrow> NegInf | NegInf \<Rightarrow> PosInf | _ \<Rightarrow> x))"

subsection \<open>Strings as numbers\<close>

definition is_digit :: "16 word \<Rightarrow> bool" where
  "is_digit c = (0x30 \<le> c \<and> c \<le> 0x39)"

definition digits_val :: "jsstring \<Rightarrow> nat" where
  "digits_val ds = foldl (\<lambda>a c. 10 * a + (unat c - 48)) 0 ds"

text \<open>The value \<open>m * 10 ^ e\<close> with the sign applied.\<close>

definition decimal :: "bool \<Rightarrow> nat \<Rightarrow> int \<Rightarrow> jsnum" where
  "decimal neg m e =
     Fin ((if neg then - 1 else 1) * (if 0 \<le> e then of_nat m * 10 ^ nat e else of_nat m / 10 ^ nat (- e)))"

text \<open>White space and line terminators, as \<^verbatim>\<open>parseInt\<close>, \<^verbatim>\<open>Number\<close> and \<^verbatim>\<open>trim\<close> skip them.\<close>

definition is_str_ws :: "16 word \<Rightarrow> bool" where
  "is_str_ws c =
     (c = 0x09 \<or> c = 0x0A \<or> c = 0x0B \<or> c = 0x0C \<or> c = 0x0D \<or> c = 0x20 \<or> c = 0xA0 \<or>
      c = 0x1680 \<or> (0x2000 \<le> c \<and> c \<le> 0x200A) \<or> c = 0x2028 \<or> c = 0x2029 \<or>
      c = 0x202F \<or> c = 0x205F \<or> c = 0x3000 \<or> c = 0xFEFF)"

text \<open>An optional sign: whether it is a minus, and what follows it.\<close>

definition take_sign :: "jsstring \<Rightarrow> bool \<times> jsstring" where
  "take_sign s =
     (case s of
        [] \<Rightarrow> (False, s)
      | c # r \<Rightarrow> if c = 0x2D then (True, r) else if c = 0x2B then (False, r) else (False, s))"

text \<open>\<^verbatim>\<open>parseInt(s, 10)\<close>\<close>

definition parseInt10 :: "jsstring \<Rightarrow> jsnum" where
  "parseInt10 s =
     (let (neg, r) = take_sign (dropWhile is_str_ws s); ds = takeWhile is_digit r
      in if ds = [] then NaN else decimal neg (digits_val ds) 0)"

text \<open>An exponent part \<^verbatim>\<open>e+12\<close>, if one is there: its value and the rest.\<close>

definition exponent_part :: "jsstring \<Rightarrow> (int \<times> jsstring) option" where
  "exponent_part s =
     (case s of
        [] \<Rightarrow> Some (0, s)
      | c # r \<Rightarrow>
          if c = 0x65 \<or> c = 0x45 then
            (let (neg, r1) = take_sign r; ds = takeWhile is_digit r1
             in if ds = [] then None
                else Some ((if neg then - int (digits_val ds) else int (digits_val ds)), dropWhile is_digit r1))
          else Some (0, s))"

definition hex_val :: "16 word \<Rightarrow> nat option" where
  "hex_val c =
     (if 0x30 \<le> c \<and> c \<le> 0x39 then Some (unat c - 48)
      else if 0x61 \<le> c \<and> c \<le> 0x66 then Some (unat c - 87)
      else if 0x41 \<le> c \<and> c \<le> 0x46 then Some (unat c - 55)
      else None)"

text \<open>\<^verbatim>\<open>0x1f\<close>, \<^verbatim>\<open>0o17\<close>, \<^verbatim>\<open>0b101\<close>: \<open>None\<close> when the string has no such prefix.\<close>

definition radix_literal :: "jsstring \<Rightarrow> jsnum option" where
  "radix_literal t =
     (case t of
        z # p # ds \<Rightarrow>
          (let radix =
             (if p = 0x78 \<or> p = 0x58 then 16 else if p = 0x6F \<or> p = 0x4F then 8
              else if p = 0x62 \<or> p = 0x42 then 2 else (0::nat))
           in if z = 0x30 \<and> radix \<noteq> 0 then
                (if ds \<noteq> [] \<and> list_all (\<lambda>c. case hex_val c of Some d \<Rightarrow> d < radix | None \<Rightarrow> False) ds
                 then Some (Fin (of_nat (foldl (\<lambda>a c. radix * a + (case hex_val c of Some d \<Rightarrow> d | None \<Rightarrow> 0)) 0 ds)))
                 else Some NaN)
              else None)
      | _ \<Rightarrow> None)"

definition str_decimal :: "jsstring \<Rightarrow> jsnum" where
  "str_decimal t =
     (let (neg, r) = take_sign t
      in if r = js ''Infinity'' then (if neg then NegInf else PosInf)
         else
           (let ip = takeWhile is_digit r; r1 = dropWhile is_digit r;
                (fp, r2) =
                  (case r1 of
                     [] \<Rightarrow> ([], r1)
                   | c # r' \<Rightarrow> if c = 0x2E then (takeWhile is_digit r', dropWhile is_digit r') else ([], r1))
            in if ip = [] \<and> fp = [] then NaN
               else
                 (case exponent_part r2 of
                    Some (e, []) \<Rightarrow> decimal neg (digits_val (ip @ fp)) (e - int (length fp))
                  | _ \<Rightarrow> NaN)))"

definition trim :: "jsstring \<Rightarrow> jsstring" where
  "trim s = rev (dropWhile is_str_ws (rev (dropWhile is_str_ws s)))"

text \<open>\<^verbatim>\<open>Number(s)\<close> on a string.\<close>

definition string_to_number :: "jsstring \<Rightarrow> jsnum" where
  "string_to_number s =
     (let t = trim s
      in if t = [] then Fin 0
         else (case radix_literal t of Some x \<Rightarrow> x | None \<Rightarrow> str_decimal t))"

subsection \<open>Conversions, property reads, object literals\<close>

text \<open>
  \<^verbatim>\<open>String(v)\<close>, and \<^verbatim>\<open>xs.join(sep)\<close>: an element that is \<^verbatim>\<open>null\<close> or
  \<^verbatim>\<open>undefined\<close> joins as the empty string.
\<close>

fun js_toString :: "jsval \<Rightarrow> jsstring"
  and join_items :: "jsstring \<Rightarrow> jsval list \<Rightarrow> jsstring" where
  "js_toString JUndefined = js ''undefined''"
| "js_toString JNull = js ''null''"
| "js_toString (JBool b) = (if b then js ''true'' else js ''false'')"
| "js_toString (JNum x) = num_text x"
| "js_toString (JStr s) = s"
| "js_toString (JArr xs) = join_items (js '','') xs"
| "js_toString (JObj ps) = js ''[object Object]''"
| "join_items sep [] = []"
| "join_items sep (x # xs) =
     (if x = JUndefined \<or> x = JNull then [] else js_toString x) @
     (if xs = [] then [] else sep @ join_items sep xs)"

fun to_number :: "jsval \<Rightarrow> jsnum" where
  "to_number JUndefined = NaN"
| "to_number JNull = Fin 0"
| "to_number (JBool b) = Fin (if b then 1 else 0)"
| "to_number (JNum x) = x"
| "to_number (JStr s) = string_to_number s"
| "to_number (JArr xs) = string_to_number (js_toString (JArr xs))"
| "to_number (JObj ps) = NaN"

definition num_le :: "jsnum \<Rightarrow> jsnum \<Rightarrow> bool" where
  "num_le x y =
     (case (x, y) of
        (NaN, _) \<Rightarrow> False
      | (_, NaN) \<Rightarrow> False
      | (NegInf, _) \<Rightarrow> True
      | (_, PosInf) \<Rightarrow> True
      | (Fin p, Fin q) \<Rightarrow> p \<le> q
      | _ \<Rightarrow> False)"

text \<open>\<^verbatim>\<open>Math.min(a, b)\<close>\<close>

definition Math_min :: "jsval \<Rightarrow> jsval \<Rightarrow> jsnum" where
  "Math_min a b =
     (let x = to_number a; y = to_number b
      in if x = NaN \<or> y = NaN then NaN else if num_le x y then x else y)"

text \<open>The array index a property key denotes, if it is the decimal form of one.\<close>

definition canonical_index :: "jsstring \<Rightarrow> nat option" where
  "canonical_index k =
     (if k \<noteq> [] \<and> list_all is_digit k \<and> (length k = 1 \<or> hd k \<noteq> 0x30)
      then Some (digits_val k) else None)"

text \<open>
  \<^verbatim>\<open>v[k]\<close> on a value that is neither \<^verbatim>\<open>null\<close> nor \<^verbatim>\<open>undefined\<close>: own
  properties only. None of the keys the worker reads is a property of a prototype.
\<close>

fun get_prop :: "jsval \<Rightarrow> jsstring \<Rightarrow> jsval" where
  "get_prop (JObj ps) k = (case map_of ps k of Some v \<Rightarrow> v | None \<Rightarrow> JUndefined)"
| "get_prop (JArr xs) k =
     (if k = js ''length'' then JNum (Fin (of_nat (length xs)))
      else (case canonical_index k of
              Some i \<Rightarrow> if i < length xs then xs ! i else JUndefined
            | None \<Rightarrow> JUndefined))"
| "get_prop (JStr s) k =
     (if k = js ''length'' then JNum (Fin (of_nat (length s)))
      else (case canonical_index k of
              Some i \<Rightarrow> if i < length s then JStr [s ! i] else JUndefined
            | None \<Rightarrow> JUndefined))"
| "get_prop v k = JUndefined"

declare get_prop.simps(2,3) [simp del]

text \<open>\<^verbatim>\<open>v.k\<close>: a \<^verbatim>\<open>TypeError\<close> on \<^verbatim>\<open>null\<close> and \<^verbatim>\<open>undefined\<close>.\<close>

definition read_prop :: "jsval \<Rightarrow> jsstring \<Rightarrow> js_error + jsval" where
  "read_prop v k = (if nullish v then Inl TypeError else Inr (get_prop v k))"

text \<open>\<^verbatim>\<open>v?.k\<close>\<close>

definition opt_prop :: "jsval \<Rightarrow> jsstring \<Rightarrow> jsval" where
  "opt_prop v k = (if nullish v then JUndefined else get_prop v k)"

text \<open>Assignment of one property: in place when the key is there, appended otherwise.\<close>

fun set_prop :: "(jsstring \<times> jsval) list \<Rightarrow> jsstring \<Rightarrow> jsval \<Rightarrow> (jsstring \<times> jsval) list" where
  "set_prop [] k v = [(k, v)]"
| "set_prop ((k', v') # ps) k v = (if k' = k then (k, v) # ps else (k', v') # set_prop ps k v)"

text \<open>The properties \<^verbatim>\<open>{...v}\<close> copies.\<close>

fun own_enumerable :: "jsval \<Rightarrow> (jsstring \<times> jsval) list" where
  "own_enumerable (JObj ps) = ps"
| "own_enumerable (JArr xs) = zip (map show_nat [0..<length xs]) xs"
| "own_enumerable (JStr s) = zip (map show_nat [0..<length s]) (map (\<lambda>c. JStr [c]) s)"
| "own_enumerable v = []"

section \<open>JSON\<close>

subsection \<open>\<^verbatim>\<open>JSON.stringify(value, null, 2)\<close>\<close>

definition is_high :: "16 word \<Rightarrow> bool" where
  "is_high c = (0xD800 \<le> c \<and> c \<le> 0xDBFF)"

definition is_low :: "16 word \<Rightarrow> bool" where
  "is_low c = (0xDC00 \<le> c \<and> c \<le> 0xDFFF)"

definition hex_digit :: "nat \<Rightarrow> 16 word" where
  "hex_digit d = (if d < 10 then of_nat (48 + d) else of_nat (87 + d))"

text \<open>\<^verbatim>\<open>\uXXXX\<close>, lower case.\<close>

definition unicode_escape :: "16 word \<Rightarrow> jsstring" where
  "unicode_escape c =
     (let n = unat c
      in [0x5C, 0x75, hex_digit (n div 4096), hex_digit (n div 256 mod 16),
          hex_digit (n div 16 mod 16), hex_digit (n mod 16)])"

text \<open>
  One code unit that is not a surrogate: the two-character escapes of backspace, tab, line
  feed, form feed, carriage return, the double quote and the backslash; \<^verbatim>\<open>\u00XX\<close> for
  the other control characters; the unit itself otherwise.
\<close>

definition escape_unit :: "16 word \<Rightarrow> jsstring" where
  "escape_unit c =
     (if c = 0x08 then [0x5C, 0x62]
      else if c = 0x09 then [0x5C, 0x74]
      else if c = 0x0A then [0x5C, 0x6E]
      else if c = 0x0C then [0x5C, 0x66]
      else if c = 0x0D then [0x5C, 0x72]
      else if c = 0x22 then [0x5C, 0x22]
      else if c = 0x5C then [0x5C, 0x5C]
      else if c < 0x20 then unicode_escape c
      else [c])"

text \<open>A surrogate pair is kept; a surrogate on its own is escaped.\<close>

fun quote_units :: "jsstring \<Rightarrow> jsstring" where
  "quote_units [] = []"
| "quote_units (c # cs) =
     (if is_high c then
        (case cs of
           [] \<Rightarrow> unicode_escape c
         | d # ds \<Rightarrow>
             if is_low d then c # d # quote_units ds
             else unicode_escape c @ quote_units cs)
      else if is_low c then unicode_escape c @ quote_units cs
      else escape_unit c @ quote_units cs)"

definition quote :: "jsstring \<Rightarrow> jsstring" where
  "quote s = 0x22 # quote_units s @ [0x22]"

definition newline_indent :: "nat \<Rightarrow> jsstring" where
  "newline_indent n = 0x0A # replicate (2 * n) 0x20"

fun join_strings :: "jsstring \<Rightarrow> jsstring list \<Rightarrow> jsstring" where
  "join_strings sep [] = []"
| "join_strings sep [x] = x"
| "join_strings sep (x # y # ys) = x @ sep @ join_strings sep (y # ys)"

text \<open>
  The text of a value at nesting depth \<open>n\<close>; \<open>None\<close> is \<^verbatim>\<open>undefined\<close>, which an
  array prints as \<^verbatim>\<open>null\<close> and an object leaves out with its key.
\<close>

fun ser :: "nat \<Rightarrow> jsval \<Rightarrow> jsstring option"
  and ser_elements :: "nat \<Rightarrow> jsval list \<Rightarrow> jsstring list"
  and ser_members :: "nat \<Rightarrow> (jsstring \<times> jsval) list \<Rightarrow> jsstring list" where
  "ser n JUndefined = None"
| "ser n JNull = Some (js ''null'')"
| "ser n (JBool b) = Some (if b then js ''true'' else js ''false'')"
| "ser n (JNum x) = Some (case x of Fin q \<Rightarrow> rat_text q | _ \<Rightarrow> js ''null'')"
| "ser n (JStr s) = Some (quote s)"
| "ser n (JArr xs) =
     Some (if xs = [] then js ''[]''
           else 0x5B # newline_indent (Suc n) @
                join_strings (0x2C # newline_indent (Suc n)) (ser_elements (Suc n) xs) @
                newline_indent n @ [0x5D])"
| "ser n (JObj ps) =
     Some (case ser_members (Suc n) ps of
             [] \<Rightarrow> js ''{}''
           | m # ms \<Rightarrow>
               0x7B # newline_indent (Suc n) @
               join_strings (0x2C # newline_indent (Suc n)) (m # ms) @
               newline_indent n @ [0x7D])"
| "ser_elements n [] = []"
| "ser_elements n (x # xs) = (case ser n x of None \<Rightarrow> js ''null'' | Some t \<Rightarrow> t) # ser_elements n xs"
| "ser_members n [] = []"
| "ser_members n ((k, v) # ps) =
     (case ser n v of
        None \<Rightarrow> ser_members n ps
      | Some t \<Rightarrow> (quote k @ js '': '' @ t) # ser_members n ps)"

definition JSON_stringify :: "jsval \<Rightarrow> jsstring option" where
  "JSON_stringify v = ser 0 v"

subsection \<open>\<^verbatim>\<open>JSON.parse(text)\<close>\<close>

definition is_ws :: "16 word \<Rightarrow> bool" where
  "is_ws c = (c = 0x20 \<or> c = 0x09 \<or> c = 0x0A \<or> c = 0x0D)"

definition skip_ws :: "jsstring \<Rightarrow> jsstring" where
  "skip_ws s = dropWhile is_ws s"

definition unescape :: "16 word \<Rightarrow> 16 word option" where
  "unescape e =
     (if e = 0x22 then Some 0x22
      else if e = 0x5C then Some 0x5C
      else if e = 0x2F then Some 0x2F
      else if e = 0x62 then Some 0x08
      else if e = 0x66 then Some 0x0C
      else if e = 0x6E then Some 0x0A
      else if e = 0x72 then Some 0x0D
      else if e = 0x74 then Some 0x09
      else None)"

definition hex4 :: "16 word \<Rightarrow> 16 word \<Rightarrow> 16 word \<Rightarrow> 16 word \<Rightarrow> 16 word option" where
  "hex4 h1 h2 h3 h4 =
     (case hex_val h1 of None \<Rightarrow> None | Some a \<Rightarrow>
      (case hex_val h2 of None \<Rightarrow> None | Some b \<Rightarrow>
       (case hex_val h3 of None \<Rightarrow> None | Some c \<Rightarrow>
        (case hex_val h4 of None \<Rightarrow> None | Some d \<Rightarrow>
           Some (of_nat (((a * 16 + b) * 16 + c) * 16 + d))))))"

definition cons_unit :: "16 word \<Rightarrow> (jsstring \<times> jsstring) option \<Rightarrow> (jsstring \<times> jsstring) option" where
  "cons_unit u res = (case res of None \<Rightarrow> None | Some (str, rest) \<Rightarrow> Some (u # str, rest))"

text \<open>
  The characters of a string literal after its opening quote, up to the closing quote:
  the string and what follows it. A control character must be escaped.
\<close>

fun parse_chars :: "jsstring \<Rightarrow> (jsstring \<times> jsstring) option" where
  "parse_chars [] = None"
| "parse_chars (c # cs) =
     (if c = 0x22 then Some ([], cs)
      else if c = 0x5C then
        (case cs of
           [] \<Rightarrow> None
         | e # es \<Rightarrow>
             if e = 0x75 then
               (case es of
                  h1 # h2 # h3 # h4 # r \<Rightarrow>
                    (case hex4 h1 h2 h3 h4 of
                       None \<Rightarrow> None
                     | Some u \<Rightarrow> cons_unit u (parse_chars r))
                | _ \<Rightarrow> None)
             else
               (case unescape e of
                  None \<Rightarrow> None
                | Some u \<Rightarrow> cons_unit u (parse_chars es)))
      else if c < 0x20 then None
      else cons_unit c (parse_chars cs))"

text \<open>A number literal: no leading zeros, digits after a point, digits in an exponent.\<close>

definition parse_number :: "jsstring \<Rightarrow> (jsnum \<times> jsstring) option" where
  "parse_number s =
     (let (neg, s1) = (case s of [] \<Rightarrow> (False, s) | c # r \<Rightarrow> if c = 0x2D then (True, r) else (False, s));
          ip = takeWhile is_digit s1; s2 = dropWhile is_digit s1
      in if ip = [] \<or> (hd ip = 0x30 \<and> 1 < length ip) then None
         else
           (case (case s2 of
                    [] \<Rightarrow> Some ([], s2)
                  | c # r \<Rightarrow>
                      if c = 0x2E then
                        (if takeWhile is_digit r = [] then None
                         else Some (takeWhile is_digit r, dropWhile is_digit r))
                      else Some ([], s2)) of
              None \<Rightarrow> None
            | Some (fp, s3) \<Rightarrow>
                (case exponent_part s3 of
                   None \<Rightarrow> None
                 | Some (e, s4) \<Rightarrow> Some (decimal neg (digits_val (ip @ fp)) (e - int (length fp)), s4))))"

definition strip_prefix :: "jsstring \<Rightarrow> jsstring \<Rightarrow> jsstring option" where
  "strip_prefix p s = (if take (length p) s = p then Some (drop (length p) s) else None)"

datatype 'a presult = OutOfFuel | Bad | Ok 'a jsstring

text \<open>
  The recursive descent over values, array elements and object members. Each call takes
  one unit of fuel; \<open>JSON_parse\<close> gives more than any text can use.
  A repeated key keeps its first position and takes the last value.
\<close>

fun parse_value :: "nat \<Rightarrow> jsstring \<Rightarrow> jsval presult"
  and parse_elements :: "nat \<Rightarrow> jsval list \<Rightarrow> jsstring \<Rightarrow> jsval presult"
  and parse_members :: "nat \<Rightarrow> (jsstring \<times> jsval) list \<Rightarrow> jsstring \<Rightarrow> jsval presult" where
  "parse_value 0 s = OutOfFuel"
| "parse_value (Suc n) s =
     (case skip_ws s of
        [] \<Rightarrow> Bad
      | c # r \<Rightarrow>
          if c = 0x7B then
            (case skip_ws r of
               [] \<Rightarrow> Bad
             | c' # r' \<Rightarrow> if c' = 0x7D then Ok (JObj []) r' else parse_members n [] (c' # r'))
          else if c = 0x5B then
            (case skip_ws r of
               [] \<Rightarrow> Bad
             | c' # r' \<Rightarrow> if c' = 0x5D then Ok (JArr []) r' else parse_elements n [] (c' # r'))
          else if c = 0x22 then
            (case parse_chars r of
               None \<Rightarrow> Bad
             | Some (str, r') \<Rightarrow> Ok (JStr str) r')
          else
            (case strip_prefix (js ''true'') (c # r) of
               Some r' \<Rightarrow> Ok (JBool True) r'
             | None \<Rightarrow>
            (case strip_prefix (js ''false'') (c # r) of
               Some r' \<Rightarrow> Ok (JBool False) r'
             | None \<Rightarrow>
            (case strip_prefix (js ''null'') (c # r) of
               Some r' \<Rightarrow> Ok JNull r'
             | None \<Rightarrow>
            (case parse_number (c # r) of
               Some (x, r') \<Rightarrow> Ok (JNum x) r'
             | None \<Rightarrow> Bad)))))"
| "parse_elements 0 acc s = OutOfFuel"
| "parse_elements (Suc n) acc s =
     (case parse_value n s of
        OutOfFuel \<Rightarrow> OutOfFuel
      | Bad \<Rightarrow> Bad
      | Ok v r \<Rightarrow>
          (case skip_ws r of
             [] \<Rightarrow> Bad
           | c # r' \<Rightarrow>
               if c = 0x2C then parse_elements n (acc @ [v]) r'
               else if c = 0x5D then Ok (JArr (acc @ [v])) r'
               else Bad))"
| "parse_members 0 acc s = OutOfFuel"
| "parse_members (Suc n) acc s =
     (case skip_ws s of
        [] \<Rightarrow> Bad
      | c # r \<Rightarrow>
          if c = 0x22 then
            (case parse_chars r of
               None \<Rightarrow> Bad
             | Some (k, r1) \<Rightarrow>
                 (case skip_ws r1 of
                    [] \<Rightarrow> Bad
                  | c1 # r2 \<Rightarrow>
                      if c1 = 0x3A then
                        (case parse_value n r2 of
                           OutOfFuel \<Rightarrow> OutOfFuel
                         | Bad \<Rightarrow> Bad
                         | Ok v r3 \<Rightarrow>
                             (case skip_ws r3 of
                                [] \<Rightarrow> Bad
                              | c3 # r4 \<Rightarrow>
                                  if c3 = 0x2C then parse_members n (set_prop acc k v) r4
                                  else if c3 = 0x7D then Ok (JObj (set_prop acc k v)) r4
                                  else Bad))
                      else Bad))
          else Bad)"

text \<open>The whole text is one value; a text that is not JSON raises a \<^verbatim>\<open>SyntaxError\<close>.\<close>

definition JSON_parse :: "jsstring \<Rightarrow> js_error + jsval" where
  "JSON_parse s =
     (case parse_value (2 * length s + 1) s of
        Ok v r \<Rightarrow> if skip_ws r = [] then Inr v else Inl SyntaxError
      | _ \<Rightarrow> Inl SyntaxError)"

section \<open>Dates\<close>

text \<open>
  \<^verbatim>\<open>new Date().toISOString()\<close>, from the milliseconds since 1970-01-01T00:00:00Z that
  the clock shows: the proleptic Gregorian date of the day, then the time of the day.
\<close>

definition civil_from_days :: "nat \<Rightarrow> nat \<times> nat \<times> nat" where
  "civil_from_days days =
     (let z = days + 719468;
          era = z div 146097;
          doe = z mod 146097;
          yoe = (doe - doe div 1460 + doe div 36524 - doe div 146096) div 365;
          doy = doe - (365 * yoe + yoe div 4 - yoe div 100);
          mp = (5 * doy + 2) div 153;
          d = doy - (153 * mp + 2) div 5 + 1;
          m = (if mp < 10 then mp + 3 else mp - 9);
          y = yoe + era * 400 + (if m \<le> 2 then 1 else 0)
      in (y, m, d))"

definition pad :: "nat \<Rightarrow> nat \<Rightarrow> jsstring" where
  "pad w n = replicate (w - length (show_nat n)) 0x30 @ show_nat n"

definition toISOString :: "nat \<Rightarrow> jsstring" where
  "toISOString t =
     (let (y, m, d) = civil_from_days (t div 86400000)
      in (if y \<le> 9999 then pad 4 y else js ''+'' @ pad 6 y) @ js ''-'' @ pad 2 m @ js ''-'' @ pad 2 d @
         js ''T'' @ pad 2 (t div 3600000 mod 24) @ js '':'' @ pad 2 (t div 60000 mod 60) @
         js '':'' @ pad 2 (t div 1000 mod 60) @ js ''.'' @ pad 3 (t mod 1000) @ js ''Z'')"

section \<open>The collaborators of the worker\<close>

text \<open>
  The durable store is the R2 bucket \<^verbatim>\<open>env.MEMORIES_BUCKET\<close>: a map from keys to
  objects. It holds the text it was given (R2 keeps the UTF-8 encoding, which loses
  nothing of a text without unpaired surrogates, as every text of \<open>JSON_stringify\<close> is).
  Beside the bucket the state keeps the calls made to the store and to the search
  provider, in order.
\<close>

record r2object =
  obj_body :: jsstring
  obj_contentType :: jsstring
  obj_customMetadata :: "(jsstring \<times> jsval) list"

datatype call =
    R2Put jsstring
  | R2Get jsstring
  | R2Delete jsstring
  | R2List jsstring jsnum "jsstring option"
  | AiSearch jsval jsnum bool rat
  | ResyncRequest

record env =
  MEMORIES_BUCKET :: "jsstring \<rightharpoonup> r2object"
  calls :: "call list"

text \<open>
  What the platform answers during one request. The reply to the resync request is no
  response at all (the \<^verbatim>\<open>fetch\<close> is rejected, or the body is not JSON) or the JSON
  value of the body. The search provider fails or returns its items. The listing of the
  bucket is taken as the store gave it: the objects may be gone from the bucket by the
  time they are read.
\<close>

datatype fetch_reply = NoResponse | Response jsval

record chunk =
  chunk_type :: jsstring
  chunk_text :: jsstring

record search_item =
  item_file_id :: jsstring
  item_filename :: jsstring
  item_score :: jsnum
  item_attributes :: "(jsstring \<times> jsval) list"
  item_content :: "chunk list"

datatype search_reply = SearchFailed | SearchResults "search_item list"

record r2objects =
  listed_objects :: "jsstring list"
  listed_truncated :: bool
  listed_cursor :: jsval

record platform =
  randomUUID :: jsstring
  clock :: "nat \<Rightarrow> nat"
  fetch_reply :: fetch_reply
  search_reply :: search_reply
  list_reply :: r2objects

definition r2_put :: "jsstring \<Rightarrow> r2object \<Rightarrow> env \<Rightarrow> env" where
  "r2_put key obj s = s\<lparr>MEMORIES_BUCKET := (MEMORIES_BUCKET s)(key \<mapsto> obj), calls := calls s @ [R2Put key]\<rparr>"

definition r2_get :: "jsstring \<Rightarrow> env \<Rightarrow> r2object option \<times> env" where
  "r2_get key s = (MEMORIES_BUCKET s key, s\<lparr>calls := calls s @ [R2Get key]\<rparr>)"

definition r2_delete :: "jsstring \<Rightarrow> env \<Rightarrow> env" where
  "r2_delete key s = s\<lparr>MEMORIES_BUCKET := (MEMORIES_BUCKET s)(key := None), calls := calls s @ [R2Delete key]\<rparr>"

record http_response =
  res_status :: nat
  res_json :: jsval

section \<open>The worker\<close>

subsection \<open>\<^verbatim>\<open>triggerResync\<close>\<close>

record resync_result =
  rs_success :: bool
  rs_jobId :: jsval
  rs_error :: jsval

definition triggerResync :: "platform \<Rightarrow> env \<Rightarrow> (js_error + resync_result) \<times> env" where
  "triggerResync p s =
     (let s1 = s\<lparr>calls := calls s @ [ResyncRequest]\<rparr>
      in case fetch_reply p of
           NoResponse \<Rightarrow> (Inl NetworkError, s1)
         | Response result \<Rightarrow>
             (case read_prop result (js ''success'') of
                Inl e \<Rightarrow> (Inl e, s1)
              | Inr success \<Rightarrow>
                  if \<not> truthy success then
                    (Inr \<lparr>rs_success = False, rs_jobId = JUndefined,
                          rs_error =
                            or_else
                              (opt_prop (opt_prop (get_prop result (js ''errors'')) (js ''0'')) (js ''message''))
                              (JStr (js ''Unknown error''))\<rparr>,
                     s1)
                  else
                    (Inr \<lparr>rs_success = True,
                          rs_jobId = opt_prop (get_prop result (js ''result'')) (js ''id''),
                          rs_error = JUndefined\<rparr>,
                     s1)))"

subsection \<open>\<^verbatim>\<open>saveMemory\<close>\<close>

definition memory_key :: "jsstring \<Rightarrow> jsstring" where
  "memory_key mid = js ''memories/'' @ mid @ js ''.json''"

text \<open>\<^verbatim>\<open>v.join(sep)\<close>: only an array has the method.\<close>

definition array_join :: "jsval \<Rightarrow> jsstring \<Rightarrow> js_error + jsstring" where
  "array_join v sep = (case v of JArr xs \<Rightarrow> Inr (join_items sep xs) | _ \<Rightarrow> Inl TypeError)"

definition saveMemory :: "platform \<Rightarrow> jsval \<Rightarrow> jsval \<Rightarrow> jsval \<Rightarrow> env \<Rightarrow> (js_error + jsval) \<times> env" where
  "saveMemory p content tags_arg source_arg s =
     (let tags = (if tags_arg = JUndefined then JArr [] else tags_arg);
          source = (if source_arg = JUndefined then JStr (js ''user'') else source_arg);
          createdAt = JStr (toISOString (clock p 0));
          memory =
            JObj [(js ''id'', JStr (randomUUID p)), (js ''content'', content), (js ''tags'', tags),
                  (js ''source'', source), (js ''createdAt'', createdAt)]
      in case JSON_stringify memory of
           None \<Rightarrow> (Inl TypeError, s)
         | Some text \<Rightarrow>
             (case array_join tags (js '','') of
                Inl e \<Rightarrow> (Inl e, s)
              | Inr joined \<Rightarrow>
                  (let s1 =
                     r2_put (memory_key (randomUUID p))
                       \<lparr>obj_body = text, obj_contentType = js ''application/json'',
                        obj_customMetadata =
                          [(js ''tags'', JStr joined), (js ''source'', source), (js ''createdAt'', createdAt)]\<rparr>
                       s
                   in case triggerResync p s1 of
                        (Inl e, s2) \<Rightarrow> (Inl e, s2)
                      | (Inr resync, s2) \<Rightarrow> (Inr memory, s2))))"

subsection \<open>\<^verbatim>\<open>searchMemories\<close>\<close>

definition text_content :: "search_item \<Rightarrow> jsstring" where
  "text_content item =
     join_strings [0x0A] (map chunk_text (filter (\<lambda>c. chunk_type c = js ''text'') (item_content item)))"

definition synthetic :: "nat \<Rightarrow> search_item \<Rightarrow> jsval" where
  "synthetic now item =
     JObj [(js ''id'', JStr (item_file_id item)), (js ''content'', JStr (text_content item)),
           (js ''tags'', JArr []), (js ''source'', JStr (js ''auto'')),
           (js ''createdAt'', JStr (toISOString now)), (js ''score'', JNum (item_score item))]"

text \<open>The body of the loop over \<^verbatim>\<open>results.data\<close>: what one item pushes.\<close>

definition normalize_item :: "nat \<Rightarrow> search_item \<Rightarrow> jsval" where
  "normalize_item now item =
     (case JSON_parse (text_content item) of
        Inr memory \<Rightarrow> JObj (set_prop (own_enumerable memory) (js ''score'') (JNum (item_score item)))
      | Inl e \<Rightarrow> synthetic now item)"

fun normalize_items :: "(nat \<Rightarrow> nat) \<Rightarrow> nat \<Rightarrow> search_item list \<Rightarrow> jsval list \<Rightarrow> jsval list" where
  "normalize_items clk i [] memories = memories"
| "normalize_items clk i (item # items) memories =
     normalize_items clk (Suc i) items (memories @ [normalize_item (clk i) item])"

definition searchMemories :: "platform \<Rightarrow> jsval \<Rightarrow> jsval \<Rightarrow> env \<Rightarrow> (js_error + jsval list) \<times> env" where
  "searchMemories p query limit_arg s =
     (let limit = (if limit_arg = JUndefined then JNum (Fin 5) else limit_arg);
          s1 = s\<lparr>calls := calls s @ [AiSearch query (Math_min limit (JNum (Fin 50))) True (1 / 10)]\<rparr>
      in case search_reply p of
           SearchFailed \<Rightarrow> (Inl ProviderError, s1)
         | SearchResults items \<Rightarrow> (Inr (normalize_items (clock p) 0 items []), s1))"

subsection \<open>The REST handlers\<close>

definition json_response :: "nat \<Rightarrow> jsval \<Rightarrow> http_response" where
  "json_response code v = \<lparr>res_status = code, res_json = v\<rparr>"

text \<open>\<^verbatim>\<open>POST /memories\<close>, on the JSON value of the request body.\<close>

definition post_memories :: "platform \<Rightarrow> jsval \<Rightarrow> env \<Rightarrow> (js_error + http_response) \<times> env" where
  "post_memories p body s =
     (case read_prop body (js ''content'') of
        Inl e \<Rightarrow> (Inl e, s)
      | Inr content \<Rightarrow>
          if \<not> truthy content \<or> typeof content \<noteq> js ''string'' then
            (Inr (json_response 400
                    (JObj [(js ''error'', JStr (js ''content is required and must be a string''))])), s)
          else
            (case saveMemory p content (get_prop body (js ''tags'')) (get_prop body (js ''source'')) s of
               (Inl e, s') \<Rightarrow> (Inl e, s')
             | (Inr memory, s') \<Rightarrow>
                 (Inr (json_response 200 (JObj [(js ''success'', JBool True), (js ''memory'', memory)])), s')))"

text \<open>
  \<^verbatim>\<open>GET /memories/search\<close>, on the query parameters \<^verbatim>\<open>q\<close> and \<^verbatim>\<open>limit\<close>
  (\<open>None\<close> when the parameter is absent).
\<close>

definition get_memories_search ::
  "platform \<Rightarrow> jsstring option \<Rightarrow> jsstring option \<Rightarrow> env \<Rightarrow> (js_error + http_response) \<times> env" where
  "get_memories_search p query limitParam s =
     (let limit = (case limitParam of None \<Rightarrow> Fin 5 | Some l \<Rightarrow> if l \<noteq> [] then parseInt10 l else Fin 5)
      in case query of
           None \<Rightarrow> (Inr (json_response 400 (JObj [(js ''error'', JStr (js ''Query parameter q is required''))])), s)
         | Some q \<Rightarrow>
             if q = [] then
               (Inr (json_response 400 (JObj [(js ''error'', JStr (js ''Query parameter q is required''))])), s)
             else
               (case searchMemories p (JStr q) (JNum limit) s of
                  (Inl e, s') \<Rightarrow> (Inl e, s')
                | (Inr memories, s') \<Rightarrow>
                    (Inr (json_response 200 (JObj [(js ''memories'', JArr memories)])), s')))"

text \<open>\<^verbatim>\<open>POST /memories/resync\<close>\<close>

definition post_memories_resync :: "platform \<Rightarrow> env \<Rightarrow> (js_error + http_response) \<times> env" where
  "post_memories_resync p s =
     (case triggerResync p s of
        (Inl e, s') \<Rightarrow> (Inl e, s')
      | (Inr result, s') \<Rightarrow>
          if \<not> rs_success result then
            (Inr (json_response 500 (JObj [(js ''error'', rs_error result)])), s')
          else
            (Inr (json_response 200 (JObj [(js ''success'', JBool True), (js ''jobId'', rs_jobId result)])), s'))"

text \<open>\<^verbatim>\<open>DELETE /memories/:id\<close>\<close>

definition delete_memory :: "platform \<Rightarrow> jsstring \<Rightarrow> env \<Rightarrow> (js_error + http_response) \<times> env" where
  "delete_memory p mid s =
     (let s1 = r2_delete (memory_key mid) s
      in case triggerResync p s1 of
           (Inl e, s2) \<Rightarrow> (Inl e, s2)
         | (Inr resync, s2) \<Rightarrow>
             (Inr (json_response 200
                     (JObj [(js ''success'', JBool True),
                            (js ''resync'',
                             if rs_success resync then JObj [(js ''jobId'', rs_jobId resync)]
                             else JObj [(js ''error'', rs_error resync)])])),
              s2))"

text \<open>
  \<^verbatim>\<open>GET /memories\<close>: the loop over \<^verbatim>\<open>listed.objects\<close> reads each key and pushes
  the JSON value of the object, when the bucket has one.
\<close>

fun read_listed :: "jsstring list \<Rightarrow> jsval list \<Rightarrow> env \<Rightarrow> (js_error + jsval list) \<times> env" where
  "read_listed [] memories s = (Inr memories, s)"
| "read_listed (key # keys) memories s =
     (case r2_get key s of
        (None, s1) \<Rightarrow> read_listed keys memories s1
      | (Some obj, s1) \<Rightarrow>
          (case JSON_parse (obj_body obj) of
             Inl e \<Rightarrow> (Inl e, s1)
           | Inr memory \<Rightarrow> read_listed keys (memories @ [memory]) s1))"

definition get_memories ::
  "platform \<Rightarrow> jsstring option \<Rightarrow> jsstring option \<Rightarrow> env \<Rightarrow> (js_error + http_response) \<times> env" where
  "get_memories p cursor limitParam s =
     (let limit = (case limitParam of None \<Rightarrow> Fin 20 | Some l \<Rightarrow> if l \<noteq> [] then parseInt10 l else Fin 20);
          s1 = s\<lparr>calls := calls s @
                  [R2List (js ''memories/'') limit
                     (case cursor of None \<Rightarrow> None | Some c \<Rightarrow> if c \<noteq> [] then Some c else None)]\<rparr>;
          listed = list_reply p
      in case read_listed (listed_objects listed) [] s1 of
           (Inl e, s2) \<Rightarrow> (Inl e, s2)
         | (Inr memories, s2) \<Rightarrow>
             (Inr (json_response 200
                     (JObj [(js ''memories'', JArr memories),
                            (js ''cursor'', if listed_truncated listed then listed_cursor listed else JNull)])),
              s2))"

subsection \<open>The MCP handler\<close>

definition save_memory_description :: jsstring where
  "save_memory_description =
     js ''Save a memory for future reference. Use this when the user explicitly asks to remember something, or when they express strong preferences with words like '' @
     [0x22] @ js ''ALWAYS'' @ [0x22] @ js '', '' @ [0x22] @ js ''NEVER'' @ [0x22] @ js '', '' @
     [0x22] @ js ''Remember that...'' @ [0x22] @ js '', or '' @ [0x22] @ js ''I prefer...'' @
     [0x22] @ js ''. Examples:'' @ [0x0A] @ js ''- '' @ [0x22] @
     js ''Remember that I prefer TypeScript over JavaScript'' @ [0x22] @ [0x0A] @ js ''- '' @
     [0x22] @ js ''Always use tabs for indentation in my projects'' @ [0x22] @ [0x0A] @
     js ''- '' @ [0x22] @ js ''Never use semicolons in my code'' @ [0x22]"

definition search_memories_description :: jsstring where
  "search_memories_description =
     js ''Search for relevant memories. Use this at the start of sessions or before making decisions about coding style, architecture, or user preferences. This helps maintain consistency with the user'' @
     [0x27] @ js ''s established preferences.''"

definition MCP_TOOLS :: jsval where
  "MCP_TOOLS =
     JArr
       [JObj
          [(js ''name'', JStr (js ''save_memory'')),
           (js ''description'', JStr save_memory_description),
           (js ''inputSchema'',
            JObj
              [(js ''type'', JStr (js ''object'')),
               (js ''properties'',
                JObj
                  [(js ''content'',
                    JObj [(js ''type'', JStr (js ''string'')),
                          (js ''description'', JStr (js ''The memory content to save''))]),
                   (js ''tags'',
                    JObj [(js ''type'', JStr (js ''array'')),
                          (js ''items'', JObj [(js ''type'', JStr (js ''string''))]),
                          (js ''description'',
                           JStr (js ''Optional tags to categorize the memory (e.g., ['' @ [0x22] @ js ''coding-style'' @
                           [0x22] @ js '', '' @ [0x22] @ js ''preferences'' @ [0x22] @ js ''])''))]),
                   (js ''source'',
                    JObj [(js ''type'', JStr (js ''string'')),
                          (js ''enum'', JArr [JStr (js ''user''), JStr (js ''auto'')]),
                          (js ''description'',
                           JStr (js ''Whether this memory was explicitly requested by the user or auto-detected''))])]),
               (js ''required'', JArr [JStr (js ''content'')])])],
        JObj
          [(js ''name'', JStr (js ''search_memories'')),
           (js ''description'', JStr search_memories_description),
           (js ''inputSchema'',
            JObj
              [(js ''type'', JStr (js ''object'')),
               (js ''properties'',
                JObj
                  [(js ''query'',
                    JObj [(js ''type'', JStr (js ''string'')),
                          (js ''description'', JStr (js ''The search query to find relevant memories''))]),
                   (js ''limit'',
                    JObj [(js ''type'', JStr (js ''number'')),
                          (js ''description'', JStr (js ''Maximum number of results to return (default: 5)''))])]),
               (js ''required'', JArr [JStr (js ''query'')])])]]"

definition mcpResult :: "jsval \<Rightarrow> jsval \<Rightarrow> jsval" where
  "mcpResult rid result = JObj [(js ''jsonrpc'', JStr (js ''2.0'')), (js ''id'', rid), (js ''result'', result)]"

definition mcpToolResult :: "jsval \<Rightarrow> jsstring \<Rightarrow> bool \<Rightarrow> jsval" where
  "mcpToolResult rid txt isError =
     mcpResult rid
       (JObj ((js ''content'', JArr [JObj [(js ''type'', JStr (js ''text'')), (js ''text'', JStr txt)]]) #
              (if isError then [(js ''isError'', JBool True)] else [])))"

definition mcpError :: "jsval \<Rightarrow> int \<Rightarrow> jsstring \<Rightarrow> jsval" where
  "mcpError rid code message =
     JObj [(js ''jsonrpc'', JStr (js ''2.0'')), (js ''id'', rid),
           (js ''error'', JObj [(js ''code'', JNum (Fin (of_int code))), (js ''message'', JStr message)])]"

text \<open>\<^verbatim>\<open>x > 0\<close>\<close>

definition positive :: "jsval \<Rightarrow> bool" where
  "positive v = (case to_number v of Fin q \<Rightarrow> 0 < q | PosInf \<Rightarrow> True | _ \<Rightarrow> False)"

text \<open>One line of the search tool's answer, for the memory at index \<open>i\<close>.\<close>

definition format_memory :: "nat \<Rightarrow> jsval \<Rightarrow> js_error + jsstring" where
  "format_memory i m =
     (case read_prop (get_prop m (js ''tags'')) (js ''length'') of
        Inl e \<Rightarrow> Inl e
      | Inr len \<Rightarrow>
          (case (if positive len then
                   (case array_join (get_prop m (js ''tags'')) (js '', '') of
                      Inl e \<Rightarrow> Inl e
                    | Inr joined \<Rightarrow> Inr (js '' ['' @ joined @ js '']''))
                 else Inr []) of
             Inl e \<Rightarrow> Inl e
           | Inr tags \<Rightarrow>
               Inr (show_nat (i + 1) @ js ''. '' @ js_toString (get_prop m (js ''content'')) @ tags @
                    js '' (relevance: '' @
                    toFixed1 (num_times (to_number (get_prop m (js ''score''))) 100) @ js ''%)'')))"

fun format_memories :: "nat \<Rightarrow> jsval list \<Rightarrow> js_error + jsstring list" where
  "format_memories i [] = Inr []"
| "format_memories i (m # ms) =
     (case format_memory i m of
        Inl e \<Rightarrow> Inl e
      | Inr line \<Rightarrow>
          (case format_memories (Suc i) ms of
             Inl e \<Rightarrow> Inl e
           | Inr lines \<Rightarrow> Inr (line # lines)))"

text \<open>The case \<^verbatim>\<open>tools/call\<close> of the switch.\<close>

definition tools_call :: "platform \<Rightarrow> jsval \<Rightarrow> jsval \<Rightarrow> env \<Rightarrow> (js_error + jsval) \<times> env" where
  "tools_call p rid params s =
     (let toolName = opt_prop params (js ''name'');
          toolArgs = opt_prop params (js ''arguments'')
      in if toolName = JStr (js ''save_memory'') then
           (let content = opt_prop toolArgs (js ''content'')
            in if \<not> truthy content then
                 (Inr (mcpToolResult rid (js ''Error: content is required'') True), s)
               else
                 (case saveMemory p content
                         (or_else (opt_prop toolArgs (js ''tags'')) (JArr []))
                         (or_else (opt_prop toolArgs (js ''source'')) (JStr (js ''user''))) s of
                    (Inl e, s') \<Rightarrow> (Inl e, s')
                  | (Inr memory, s') \<Rightarrow>
                      (Inr (mcpToolResult rid
                              (js ''Memory saved successfully with ID: '' @ js_toString (get_prop memory (js ''id'')))
                              False),
                       s')))
         else if toolName = JStr (js ''search_memories'') then
           (let query = opt_prop toolArgs (js ''query'')
            in if \<not> truthy query then
                 (Inr (mcpToolResult rid (js ''Error: query is required'') True), s)
               else
                 (case searchMemories p query (or_else (opt_prop toolArgs (js ''limit'')) (JNum (Fin 5))) s of
                    (Inl e, s') \<Rightarrow> (Inl e, s')
                  | (Inr memories, s') \<Rightarrow>
                      if memories = [] then
                        (Inr (mcpToolResult rid (js ''No memories found matching the query.'') False), s')
                      else
                        (case format_memories 0 memories of
                           Inl e \<Rightarrow> (Inl e, s')
                         | Inr lines \<Rightarrow>
                             (Inr (mcpToolResult rid
                                     (js ''Found '' @ show_nat (length memories) @
                                      js '' relevant memories:'' @ [0x0A, 0x0A] @ join_strings [0x0A] lines)
                                     False),
                              s'))))
         else (Inr (mcpToolResult rid (js ''Unknown tool: '' @ js_toString toolName) True), s))"

definition handleMcpRequest :: "platform \<Rightarrow> jsval \<Rightarrow> env \<Rightarrow> (js_error + jsval) \<times> env" where
  "handleMcpRequest p request s =
     (if nullish request then (Inl TypeError, s)
      else
        (let rid = get_prop request (js ''id'');
             method = get_prop request (js ''method'');
             params = get_prop request (js ''params'')
         in if method = JStr (js ''initialize'') then
              (Inr (mcpResult rid
                      (JObj [(js ''protocolVersion'', JStr (js ''2024-11-05'')),
                             (js ''capabilities'', JObj [(js ''tools'', JObj [])]),
                             (js ''serverInfo'',
                              JObj [(js ''name'', JStr (js ''agent-memories'')),
                                    (js ''version'', JStr (js ''1.0.0''))])])),
               s)
            else if method = JStr (js ''tools/list'') then
              (Inr (mcpResult rid (JObj [(js ''tools'', MCP_TOOLS)])), s)
            else if method = JStr (js ''tools/call'') then tools_call p rid params s
            else if method = JStr (js ''notifications/initialized'') \<or>
                    method = JStr (js ''notifications/cancelled'') then
              (Inr (mcpResult rid (JObj [])), s)
            else (Inr (mcpError rid (- 32601) (js ''Method not found: '' @ js_toString method)), s)))"

section \<open>Notions used in the statements\<close>

text \<open>
  The values that \<open>JSON_stringify\<close> and \<open>JSON_parse\<close> keep as they are: built from
  \<^verbatim>\<open>null\<close>, booleans, strings, arrays and objects whose keys are all different. (A
  number may be printed rounded and \<^verbatim>\<open>undefined\<close> is left out.) A Memory with string
  fields and a list of string tags is such a value.
\<close>

fun plain :: "jsval \<Rightarrow> bool"
  and plain_elements :: "jsval list \<Rightarrow> bool"
  and plain_members :: "(jsstring \<times> jsval) list \<Rightarrow> bool" where
  "plain JUndefined = False"
| "plain JNull = True"
| "plain (JBool b) = True"
| "plain (JNum x) = False"
| "plain (JStr s) = True"
| "plain (JArr xs) = plain_elements xs"
| "plain (JObj ps) = plain_members ps"
| "plain_elements [] = True"
| "plain_elements (x # xs) = (plain x \<and> plain_elements xs)"
| "plain_members [] = True"
| "plain_members ((k, v) # ps) = (plain v \<and> k \<notin> fst ` set ps \<and> plain_members ps)"

text \<open>A text that begins with a character of a value: no white space, no closing bracket.\<close>

definition starts_value :: "jsstring \<Rightarrow> bool" where
  "starts_value t = (case t of [] \<Rightarrow> False | c # r \<Rightarrow> \<not> is_ws c \<and> c \<noteq> 0x5D)"

text \<open>The JSON value of the object stored under a key, when there is one and it is JSON.\<close>

definition stored_value :: "env \<Rightarrow> jsstring \<Rightarrow> jsval option" where
  "stored_value s key =
     (case MEMORIES_BUCKET s key of
        None \<Rightarrow> None
      | Some obj \<Rightarrow> (case JSON_parse (obj_body obj) of Inl e \<Rightarrow> None | Inr v \<Rightarrow> Some v))"

text \<open>The Memory that \<open>saveMemory\<close> builds from its arguments.\<close>

definition new_memory :: "platform \<Rightarrow> jsval \<Rightarrow> jsval \<Rightarrow> jsval \<Rightarrow> jsval" where
  "new_memory p content tags_arg source_arg =
     JObj [(js ''id'', JStr (randomUUID p)), (js ''content'', content),
           (js ''tags'', if tags_arg = JUndefined then JArr [] else tags_arg),
           (js ''source'', if source_arg = JUndefined then JStr (js ''user'') else source_arg),
           (js ''createdAt'', JStr (toISOString (clock p 0)))]"

text \<open>
  A Memory as a JSON value, and what counts as one: an object whose \<^verbatim>\<open>id\<close>,
  \<^verbatim>\<open>content\<close> and \<^verbatim>\<open>createdAt\<close> are strings, whose \<^verbatim>\<open>tags\<close> are a list of
  strings and whose \<^verbatim>\<open>source\<close> is \<^verbatim>\<open>user\<close> or \<^verbatim>\<open>auto\<close>. A text parses as a
  serialized Memory when it is JSON and its value is one.
\<close>

definition memory_value :: "jsstring \<Rightarrow> jsstring \<Rightarrow> jsstring list \<Rightarrow> jsstring \<Rightarrow> jsstring \<Rightarrow> jsval" where
  "memory_value mid content tags source createdAt =
     JObj [(js ''id'', JStr mid), (js ''content'', JStr content), (js ''tags'', JArr (map JStr tags)),
           (js ''source'', JStr source), (js ''createdAt'', JStr createdAt)]"

definition is_string :: "jsval \<Rightarrow> bool" where
  "is_string v = (case v of JStr s \<Rightarrow> True | _ \<Rightarrow> False)"

definition is_memory :: "jsval \<Rightarrow> bool" where
  "is_memory v =
     (case v of
        JObj ps \<Rightarrow>
          is_string (get_prop v (js ''id'')) \<and> is_string (get_prop v (js ''content'')) \<and>
          (case get_prop v (js ''tags'') of JArr ts \<Rightarrow> list_all is_string ts | _ \<Rightarrow> False) \<and>
          (get_prop v (js ''source'') = JStr (js ''user'') \<or> get_prop v (js ''source'') = JStr (js ''auto'')) \<and>
          is_string (get_prop v (js ''createdAt''))
      | _ \<Rightarrow> False)"

definition parses_as_memory :: "jsstring \<Rightarrow> bool" where
  "parses_as_memory t = (case JSON_parse t of Inl e \<Rightarrow> False | Inr v \<Rightarrow> is_memory v)"

section \<open>Example inputs\<close>

definition empty_env :: env where
  "empty_env = \<lparr>MEMORIES_BUCKET = Map.empty, calls = []\<rparr>"

text \<open>A request during which the provider rejects the resync.\<close>

definition ex_rejected :: platform where
  "ex_rejected =
     \<lparr>randomUUID = js ''0b0e6a7c'', clock = (\<lambda>i. 1700000000000),
      fetch_reply =
        Response (JObj [(js ''success'', JBool False),
                        (js ''errors'', JArr [JObj [(js ''message'', JStr (js ''quota exceeded''))]])]),
      search_reply = SearchResults [],
      list_reply = \<lparr>listed_objects = [], listed_truncated = False, listed_cursor = JUndefined\<rparr>\<rparr>"

text \<open>Requests during which the provider rejects the resync with no detail, and accepts it.\<close>

definition ex_no_detail :: platform where
  "ex_no_detail = ex_rejected\<lparr>fetch_reply := Response (JObj [(js ''success'', JBool False), (js ''errors'', JArr [])])\<rparr>"

definition ex_accepted :: platform where
  "ex_accepted =
     ex_rejected\<lparr>fetch_reply :=
                   Response (JObj [(js ''success'', JBool True), (js ''result'', JObj [(js ''id'', JStr (js ''job-7''))])])\<rparr>"

text \<open>A request during which the resync request gets no response.\<close>

definition ex_unreachable :: platform where
  "ex_unreachable = ex_rejected\<lparr>fetch_reply := NoResponse\<rparr>"

text \<open>A JSON-RPC request that calls a tool.\<close>

definition mcp_call :: "string \<Rightarrow> (jsstring \<times> jsval) list \<Rightarrow> jsval" where
  "mcp_call tool args =
     JObj [(js ''jsonrpc'', JStr (js ''2.0'')), (js ''id'', JNum (Fin 1)), (js ''method'', JStr (js ''tools/call'')),
           (js ''params'', JObj [(js ''name'', JStr (js tool)), (js ''arguments'', JObj args)])]"

text \<open>A search result with one text chunk, and a provider that returns two of them.\<close>

definition ex_item :: "string \<Rightarrow> search_item" where
  "ex_item txt =
     \<lparr>item_file_id = js ''memories/0b0e6a7c.json'', item_filename = js ''memories/0b0e6a7c.json'',
      item_score = Fin (82 / 100), item_attributes = [],
      item_content = [\<lparr>chunk_type = js ''text'', chunk_text = js txt\<rparr>]\<rparr>"

definition ex_search :: platform where
  "ex_search = ex_rejected\<lparr>search_reply := SearchResults [ex_item ''Always use tabs'', ex_item ''true'']\<rparr>"

text \<open>
  A Memory created while the provider rejects the resync, the state after its creation,
  a later request whose listing has the key of that Memory, and one whose listing also has
  a key that the bucket does not hold.
\<close>

definition ex_memory :: jsval where
  "ex_memory = new_memory ex_rejected (JStr (js ''Always use tabs'')) (JArr [JStr (js ''style'')]) (JStr (js ''user''))"

definition ex_created :: env where
  "ex_created =
     snd (saveMemory ex_rejected (JStr (js ''Always use tabs'')) (JArr [JStr (js ''style'')]) (JStr (js ''user''))
            empty_env)"

definition ex_fetch :: platform where
  "ex_fetch =
     ex_rejected\<lparr>clock := (\<lambda>i. 1700000000500),
                 list_reply :=
                   \<lparr>listed_objects = [memory_key (js ''0b0e6a7c'')], listed_truncated = False,
                    listed_cursor = JUndefined\<rparr>\<rparr>"

definition ex_listing :: platform where
  "ex_listing =
     ex_rejected\<lparr>list_reply :=
                   \<lparr>listed_objects = [memory_key (js ''0b0e6a7c''), memory_key (js ''4f1d22aa'')],
                    listed_truncated = False, listed_cursor = JUndefined\<rparr>\<rparr>"

section \<open>Strings and keys\<close>

lemma unat_of_char: "unat (of_char c :: 16 word) = of_char c"
proof -
  have eq: "(of_char c :: 16 word) = of_nat (of_char c)"
    by (simp only: of_nat_of_char)
  have a: "(of_char c :: nat) < 256"
    by (rule nat_of_char_less_256)
  have b: "(256 :: nat) < 2 ^ LENGTH(16)"
    by simp
  show ?thesis
    using eq [symmetric] less_trans [OF a b] by (rule of_nat_inverse)
qed

lemma of_char_word16_inj: "(of_char a :: 16 word) = of_char b \<longleftrightarrow> a = b"
proof
  assume "(of_char a :: 16 word) = of_char b"
  then have "unat (of_char a :: 16 word) = unat (of_char b :: 16 word)"
    by (rule arg_cong)
  then have "(of_char a :: nat) = of_char b"
    by (simp only: unat_of_char)
  then show "a = b"
    by (rule of_char_eqI)
next
  assume "a = b"
  then show "(of_char a :: 16 word) = of_char b"
    by (rule arg_cong)
qed

lemma js_eq_iff [simp]: "js a = js b \<longleftrightarrow> a = b"
proof -
  have "inj (of_char :: char \<Rightarrow> 16 word)"
    by (rule injI) (simp only: of_char_word16_inj)
  then show ?thesis
    unfolding js_def by (rule inj_map_eq_map)
qed

lemma js_Nil_iff [simp]: "js a = [] \<longleftrightarrow> a = []" "[] = js a \<longleftrightarrow> a = []"
  by (auto simp: js_def)

lemma first_element [simp]:
  "get_prop (JArr []) (js ''0'') = JUndefined"
  "get_prop (JArr (x # xs)) (js ''0'') = x"
  by (simp_all add: get_prop.simps canonical_index_def is_digit_def digits_val_def js_def)

section \<open>The resync outcome\<close>

lemma triggerResync_calls: "calls (snd (triggerResync p s)) = calls s @ [ResyncRequest]"
  by (simp add: triggerResync_def Let_def read_prop_def split: fetch_reply.splits sum.splits)

lemma triggerResync_bucket: "MEMORIES_BUCKET (snd (triggerResync p s)) = MEMORIES_BUCKET s"
  by (simp add: triggerResync_def Let_def read_prop_def split: fetch_reply.splits sum.splits)

text \<open>
  C3: when the provider's response is a JSON object, \<open>triggerResync\<close> returns and does
  not raise, and its result succeeded exactly when the response's \<^verbatim>\<open>success\<close> is
  truthy. With \<^verbatim>\<open>success: false\<close> the result is the rejection that carries the
  message of the first reported error, when that message is a non-empty string, and
  \<^verbatim>\<open>Unknown error\<close> when the response has no \<^verbatim>\<open>errors\<close> or an empty list of them.
  With \<^verbatim>\<open>success: true\<close> the result is the acceptance that carries the \<^verbatim>\<open>id\<close> of
  the response's \<^verbatim>\<open>result\<close>.
\<close>

theorem triggerResync_reported:
  assumes "fetch_reply p = Response (JObj ps)"
  shows "(\<exists>res. fst (triggerResync p s) = Inr res \<and>
                 rs_success res = truthy (get_prop (JObj ps) (js ''success''))) \<and>
         (\<forall>es rest m. map_of ps (js ''success'') = Some (JBool False) \<and>
            map_of ps (js ''errors'') = Some (JArr (JObj es # rest)) \<and>
            map_of es (js ''message'') = Some (JStr m) \<and> m \<noteq> [] \<longrightarrow>
            fst (triggerResync p s) = Inr \<lparr>rs_success = False, rs_jobId = JUndefined, rs_error = JStr m\<rparr>) \<and>
         (map_of ps (js ''success'') = Some (JBool False) \<and>
            (map_of ps (js ''errors'') = None \<or> map_of ps (js ''errors'') = Some (JArr [])) \<longrightarrow>
            fst (triggerResync p s) =
              Inr \<lparr>rs_success = False, rs_jobId = JUndefined, rs_error = JStr (js ''Unknown error'')\<rparr>) \<and>
         (\<forall>rs j. map_of ps (js ''success'') = Some (JBool True) \<and>
            map_of ps (js ''result'') = Some (JObj rs) \<and> map_of rs (js ''id'') = Some j \<longrightarrow>
            fst (triggerResync p s) = Inr \<lparr>rs_success = True, rs_jobId = j, rs_error = JUndefined\<rparr>)"
proof (intro conjI impI allI)
  show "\<exists>res. fst (triggerResync p s) = Inr res \<and>
              rs_success res = truthy (get_prop (JObj ps) (js ''success''))"
    using assms by (simp add: triggerResync_def Let_def read_prop_def nullish_def)
next
  fix es rest m
  assume "map_of ps (js ''success'') = Some (JBool False) \<and>
            map_of ps (js ''errors'') = Some (JArr (JObj es # rest)) \<and>
            map_of es (js ''message'') = Some (JStr m) \<and> m \<noteq> []"
  then show "fst (triggerResync p s) = Inr \<lparr>rs_success = False, rs_jobId = JUndefined, rs_error = JStr m\<rparr>"
    using assms by (simp add: triggerResync_def Let_def read_prop_def nullish_def opt_prop_def or_else_def)
next
  assume "map_of ps (js ''success'') = Some (JBool False) \<and>
            (map_of ps (js ''errors'') = None \<or> map_of ps (js ''errors'') = Some (JArr []))"
  then show "fst (triggerResync p s) =
              Inr \<lparr>rs_success = False, rs_jobId = JUndefined, rs_error = JStr (js ''Unknown error'')\<rparr>"
    using assms
    by (elim conjE disjE) (simp_all add: triggerResync_def Let_def read_prop_def nullish_def opt_prop_def or_else_def)
next
  fix rs j
  assume "map_of ps (js ''success'') = Some (JBool True) \<and> map_of ps (js ''result'') = Some (JObj rs) \<and>
              map_of rs (js ''id'') = Some j"
  then show "fst (triggerResync p s) = Inr \<lparr>rs_success = True, rs_jobId = j, rs_error = JUndefined\<rparr>"
    using assms by (simp add: triggerResync_def Let_def read_prop_def nullish_def opt_prop_def)
qed

theorem triggerResync_reported_witness:
  "fst (triggerResync ex_rejected empty_env) =
     Inr \<lparr>rs_success = False, rs_jobId = JUndefined, rs_error = JStr (js ''quota exceeded'')\<rparr> \<and>
   fst (triggerResync ex_no_detail empty_env) =
     Inr \<lparr>rs_success = False, rs_jobId = JUndefined, rs_error = JStr (js ''Unknown error'')\<rparr> \<and>
   fst (triggerResync ex_accepted empty_env) =
     Inr \<lparr>rs_success = True, rs_jobId = JStr (js ''job-7''), rs_error = JUndefined\<rparr>"
  using triggerResync_reported [of ex_rejected _ empty_env]
    triggerResync_reported [of ex_no_detail _ empty_env]
    triggerResync_reported [of ex_accepted _ empty_env]
  by (simp add: ex_rejected_def ex_no_detail_def ex_accepted_def)

section \<open>The fuel of the parser\<close>

text \<open>
  Every value, list of elements or list of members that is parsed takes at least one
  character of the text, so the depth of the descent is bounded by the length of the
  text.
\<close>

lemma skip_ws_length: "length (skip_ws s) \<le> length s"
  by (simp add: skip_ws_def length_dropWhile_le)

lemma skip_ws_Cons_length: "skip_ws s = c # r \<Longrightarrow> length r < length s"
  using skip_ws_length [of s] by simp

lemma parse_chars_length: "parse_chars s = Some (str, r) \<Longrightarrow> length r < length s"
proof (induction s arbitrary: str r rule: parse_chars.induct)
  case 1
  then show ?case by simp
next
  case (2 c cs)
  then show ?case
    by (fastforce simp: cons_unit_def split: if_splits list.splits option.splits)
qed

lemma strip_prefix_length: "strip_prefix p s = Some r \<Longrightarrow> p \<noteq> [] \<Longrightarrow> length r < length s"
  by (cases s) (auto simp: strip_prefix_def split: if_splits)

lemma take_sign_length: "take_sign s = (neg, r) \<Longrightarrow> length r \<le> length s"
  by (auto simp: take_sign_def split: list.splits if_splits)

lemma exponent_part_length: "exponent_part s = Some (e, r) \<Longrightarrow> length r \<le> length s"
  by (auto simp: exponent_part_def Let_def split: list.splits if_splits prod.splits
      dest!: take_sign_length intro: order_trans [OF length_dropWhile_le] le_SucI)

lemma dropWhile_shorter: "takeWhile P xs \<noteq> [] \<Longrightarrow> length (dropWhile P xs) < length xs"
  by (cases xs) (auto simp: less_Suc_eq_le length_dropWhile_le split: if_splits)

lemma parse_number_length:
  assumes "parse_number s = Some (x, r)"
  shows "length r < length s"
proof -
  obtain neg s1
    where ns: "(case s of [] \<Rightarrow> (False, s) | c # t \<Rightarrow> if c = 0x2D then (True, t) else (False, s)) = (neg, s1)"
    by fastforce
  have 1: "length s1 \<le> length s"
    using ns by (auto split: list.splits if_splits)
  have ip: "takeWhile is_digit s1 \<noteq> []"
    using assms ns by (auto simp: parse_number_def Let_def split: if_splits)
  obtain fp s3 e
    where f: "(case dropWhile is_digit s1 of
                [] \<Rightarrow> Some ([], dropWhile is_digit s1)
              | c # r \<Rightarrow>
                  if c = 0x2E then
                    (if takeWhile is_digit r = [] then None
                     else Some (takeWhile is_digit r, dropWhile is_digit r))
                  else Some ([], dropWhile is_digit s1)) = Some (fp, s3)"
      and e: "exponent_part s3 = Some (e, r)"
    using assms ns by (auto simp: parse_number_def Let_def split: if_splits option.splits)
  have "length s3 \<le> length s2"
    if "(case s2 of
           [] \<Rightarrow> Some ([], s2)
         | c # r \<Rightarrow>
             if c = 0x2E then
               (if takeWhile is_digit r = [] then None
                else Some (takeWhile is_digit r, dropWhile is_digit r))
             else Some ([], s2)) = Some (fp, s3)" for s2
    using that
    by (cases s2) (auto split: if_splits intro: order_trans [OF length_dropWhile_le] le_SucI)
  from this [OF f] have "length s3 \<le> length (dropWhile is_digit s1)" .
  with exponent_part_length [OF e] dropWhile_shorter [OF ip] 1 show ?thesis
    by simp
qed

lemma parse_consumes:
  "parse_value n s = Ok v r \<Longrightarrow> length r < length s"
  "parse_elements n acc s = Ok v r \<Longrightarrow> length r < length s"
  "parse_members n ms s = Ok v r \<Longrightarrow> length r < length s"
proof (induction n s and n acc s and n ms s arbitrary: v r and v r and v r
    rule: parse_value_parse_elements_parse_members.induct)
  case (2 n s)
  from "2.prems" obtain c t where st: "skip_ws s = c # t"
    by (auto split: list.splits)
  note l = skip_ws_Cons_length [OF st]
  show ?case
  proof (cases "c = 0x7B")
    case True
    with "2.prems" st obtain c' t' where su: "skip_ws t = c' # t'"
      by (auto split: list.splits)
    note l' = skip_ws_Cons_length [OF su]
    show ?thesis
    proof (cases "c' = 0x7D")
      case True
      with "2.prems" st su \<open>c = 0x7B\<close> l l' show ?thesis by auto
    next
      case False
      with "2.prems" st su \<open>c = 0x7B\<close> have "parse_members n [] (c' # t') = Ok v r"
        by simp
      from "2.IH"(1) [OF st \<open>c = 0x7B\<close> su False this] l l' show ?thesis
        by simp
    qed
  next
    case nb: False
    show ?thesis
    proof (cases "c = 0x5B")
      case True
      with "2.prems" st obtain c' t' where su: "skip_ws t = c' # t'"
        by (auto split: list.splits)
      note l' = skip_ws_Cons_length [OF su]
      show ?thesis
      proof (cases "c' = 0x5D")
        case True
        with "2.prems" st su \<open>c = 0x5B\<close> l l' show ?thesis by auto
      next
        case False
        with "2.prems" st su \<open>c = 0x5B\<close> have "parse_elements n [] (c' # t') = Ok v r"
          by simp
        from "2.IH"(2) [OF st nb \<open>c = 0x5B\<close> su False this] l l' show ?thesis
          by simp
      qed
    next
      case False
      with "2.prems" st nb l show ?thesis
        by (auto split: if_splits option.splits
            dest!: parse_chars_length strip_prefix_length parse_number_length)
    qed
  qed
next
  case (4 n acc s)
  from "4.prems" obtain v1 r1 where pv: "parse_value n s = Ok v1 r1"
    by (auto split: presult.splits)
  note l1 = "4.IH"(1) [OF pv]
  from "4.prems" pv obtain c t where st: "skip_ws r1 = c # t"
    by (auto split: list.splits)
  note l2 = skip_ws_Cons_length [OF st]
  show ?case
  proof (cases "c = 0x2C")
    case True
    with "4.prems" pv st have "parse_elements n (acc @ [v1]) t = Ok v r"
      by simp
    from "4.IH"(2) [OF pv st True this] l1 l2 show ?thesis
      by simp
  next
    case False
    with "4.prems" pv st l1 l2 show ?thesis
      by (auto split: if_splits)
  qed
next
  case (6 n acc s)
  from "6.prems" obtain c t where st: "skip_ws s = c # t"
    by (auto split: list.splits)
  note l0 = skip_ws_Cons_length [OF st]
  from "6.prems" st have q: "c = 0x22"
    by (auto split: if_splits)
  from "6.prems" st q obtain k r1 where pc: "parse_chars t = Some (k, r1)"
    by (auto split: option.splits)
  note l1 = parse_chars_length [OF pc]
  from "6.prems" st q pc obtain c1 r2 where s1: "skip_ws r1 = c1 # r2"
    by (auto split: list.splits)
  note l2 = skip_ws_Cons_length [OF s1]
  from "6.prems" st q pc s1 have colon: "c1 = 0x3A"
    by (auto split: if_splits)
  from "6.prems" st q pc s1 colon obtain v1 r3 where pv: "parse_value n r2 = Ok v1 r3"
    by (auto split: presult.splits)
  note l3 = "6.IH"(1) [OF st q pc refl s1 colon pv]
  from "6.prems" st q pc s1 colon pv obtain c3 r4 where s3: "skip_ws r3 = c3 # r4"
    by (auto split: list.splits)
  note l4 = skip_ws_Cons_length [OF s3]
  show ?case
  proof (cases "c3 = 0x2C")
    case True
    with "6.prems" st q pc s1 colon pv s3 have "parse_members n (set_prop acc k v1) r4 = Ok v r"
      by simp
    from "6.IH"(2) [OF st q pc refl s1 colon pv s3 True this] l0 l1 l2 l3 l4 show ?thesis
      by simp
  next
    case False
    with "6.prems" st q pc s1 colon pv s3 l0 l1 l2 l3 l4 show ?thesis
      by (auto split: if_splits)
  qed
qed simp_all

lemma parse_fuel:
  "2 * length s < n \<Longrightarrow> parse_value n s \<noteq> OutOfFuel"
  "2 * length s + 1 < n \<Longrightarrow> parse_elements n acc s \<noteq> OutOfFuel"
  "2 * length s + 1 < n \<Longrightarrow> parse_members n ms s \<noteq> OutOfFuel"
proof (induction n s and n acc s and n ms s rule: parse_value_parse_elements_parse_members.induct)
  case (2 n s)
  show ?case
  proof (cases "skip_ws s")
    case Nil
    then show ?thesis by simp
  next
    case (Cons c t)
    note l = skip_ws_Cons_length [OF Cons]
    show ?thesis
    proof (cases "c = 0x7B")
      case ob: True
      show ?thesis
      proof (cases "skip_ws t")
        case Nil
        with Cons ob show ?thesis by simp
      next
        case su: (Cons c' t')
        note l' = skip_ws_Cons_length [OF su]
        show ?thesis
        proof (cases "c' = 0x7D")
          case True
          with Cons ob su show ?thesis by simp
        next
          case False
          from "2.IH"(1) [OF Cons ob su False] "2.prems" l l'
          have "parse_members n [] (c' # t') \<noteq> OutOfFuel"
            by simp
          with Cons ob su False show ?thesis by simp
        qed
      qed
    next
      case nb: False
      show ?thesis
      proof (cases "c = 0x5B")
        case ab: True
        show ?thesis
        proof (cases "skip_ws t")
          case Nil
          with Cons ab show ?thesis by simp
        next
          case su: (Cons c' t')
          note l' = skip_ws_Cons_length [OF su]
          show ?thesis
          proof (cases "c' = 0x5D")
            case True
            with Cons ab su show ?thesis by simp
          next
            case False
            from "2.IH"(2) [OF Cons nb ab su False] "2.prems" l l'
            have "parse_elements n [] (c' # t') \<noteq> OutOfFuel"
              by simp
            with Cons ab su False show ?thesis by simp
          qed
        qed
      next
        case False
        with Cons nb show ?thesis
          by (simp split: option.splits)
      qed
    qed
  qed
next
  case (4 n acc s)
  show ?case
  proof (cases "parse_value n s")
    case OutOfFuel
    with "4.IH"(1) "4.prems" show ?thesis by simp
  next
    case Bad
    then show ?thesis by simp
  next
    case (Ok v1 r1)
    note l1 = parse_consumes(1) [OF Ok]
    show ?thesis
    proof (cases "skip_ws r1")
      case Nil
      with Ok show ?thesis by simp
    next
      case (Cons c t)
      note l2 = skip_ws_Cons_length [OF Cons]
      have "parse_elements n (acc @ [v1]) t \<noteq> OutOfFuel" if "c = 0x2C"
        using "4.IH"(2) [OF Ok Cons that] "4.prems" l1 l2 by simp
      with Ok Cons show ?thesis
        by simp
    qed
  qed
next
  case (6 n acc s)
  show ?case
  proof (cases "skip_ws s")
    case Nil
    then show ?thesis by simp
  next
    case st: (Cons c t)
    note l0 = skip_ws_Cons_length [OF st]
    show ?thesis
    proof (cases "c = 0x22")
      case False
      with st show ?thesis by simp
    next
      case q: True
      show ?thesis
      proof (cases "parse_chars t")
        case None
        with st q show ?thesis by simp
      next
        case (Some kr)
        obtain k r1 where kr: "kr = (k, r1)"
          by (cases kr)
        note pc = Some [unfolded kr]
        note l1 = parse_chars_length [OF pc]
        show ?thesis
        proof (cases "skip_ws r1")
          case Nil
          with st q pc show ?thesis by simp
        next
          case s1: (Cons c1 r2)
          note l2 = skip_ws_Cons_length [OF s1]
          show ?thesis
          proof (cases "c1 = 0x3A")
            case False
            with st q pc s1 show ?thesis by simp
          next
            case colon: True
            show ?thesis
            proof (cases "parse_value n r2")
              case OutOfFuel
              with "6.IH"(1) [OF st q pc refl s1 colon] "6.prems" l0 l1 l2 show ?thesis
                by simp
            next
              case Bad
              with st q pc s1 colon show ?thesis by simp
            next
              case (Ok v1 r3)
              note l3 = parse_consumes(1) [OF Ok]
              show ?thesis
              proof (cases "skip_ws r3")
                case Nil
                with st q pc s1 colon Ok show ?thesis by simp
              next
                case s3: (Cons c3 r4)
                note l4 = skip_ws_Cons_length [OF s3]
                have "parse_members n (set_prop acc k v1) r4 \<noteq> OutOfFuel" if "c3 = 0x2C"
                  using "6.IH"(2) [OF st q pc refl s1 colon Ok s3 that] "6.prems" l0 l1 l2 l3 l4
                  by simp
                with st q pc s1 colon Ok s3 show ?thesis
                  by simp
              qed
            qed
          qed
        qed
      qed
    qed
  qed
qed simp_all

text \<open>
  So the fuel of \<open>JSON_parse\<close> is never used up: a \<^verbatim>\<open>SyntaxError\<close> of the model is
  a text that is not one JSON value.
\<close>

lemma JSON_parse_fuel: "parse_value (2 * length s + 1) s \<noteq> OutOfFuel"
  by (rule parse_fuel(1)) simp

section \<open>String literals\<close>

lemma hex_val_hex_digit: "d < 16 \<Longrightarrow> hex_val (hex_digit d) = Some d"
proof -
  assume "d < 16"
  then have "d = 0 \<or> d = 1 \<or> d = 2 \<or> d = 3 \<or> d = 4 \<or> d = 5 \<or> d = 6 \<or> d = 7 \<or>
             d = 8 \<or> d = 9 \<or> d = 10 \<or> d = 11 \<or> d = 12 \<or> d = 13 \<or> d = 14 \<or> d = 15"
    by arith
  then show ?thesis
    by (elim disjE) (simp_all add: hex_val_def hex_digit_def)
qed

lemma unat_lt_65536: "unat (c :: 16 word) < 65536"
  using unsigned_less [of c, where 'a = nat] by simp

lemma hex_digits_sum:
  fixes n :: nat
  shows "((n div 4096 * 16 + n div 256 mod 16) * 16 + n div 16 mod 16) * 16 + n mod 16 = n"
proof -
  have a: "n div 256 = n div 16 div 16"
    using div_mult2_eq [of n 16 16] by simp
  have b: "n div 4096 = n div 256 div 16"
    using div_mult2_eq [of n 256 16] by simp
  have "n div 4096 * 16 + n div 256 mod 16 = n div 256"
    unfolding b by (rule div_mult_mod_eq)
  moreover have "n div 256 * 16 + n div 16 mod 16 = n div 16"
    unfolding a by (rule div_mult_mod_eq)
  moreover have "n div 16 * 16 + n mod 16 = n"
    by (rule div_mult_mod_eq)
  ultimately show ?thesis
    by (simp only:)
qed

lemma hex4_unicode_digits:
  "hex4 (hex_digit (unat c div 4096)) (hex_digit (unat c div 256 mod 16))
        (hex_digit (unat c div 16 mod 16)) (hex_digit (unat c mod 16)) = Some c"
proof -
  have "unat c div 4096 < 16"
    using unat_lt_65536 [of c] by simp
  then have "hex4 (hex_digit (unat c div 4096)) (hex_digit (unat c div 256 mod 16))
        (hex_digit (unat c div 16 mod 16)) (hex_digit (unat c mod 16)) =
        Some (of_nat (((unat c div 4096 * 16 + unat c div 256 mod 16) * 16 + unat c div 16 mod 16) * 16 + unat c mod 16))"
    by (simp add: hex4_def hex_val_hex_digit)
  moreover have "(of_nat (unat c) :: 16 word) = c"
    by simp
  ultimately show ?thesis
    by (simp only: hex_digits_sum)
qed

lemma parse_chars_end: "parse_chars (0x22 # r) = Some ([], r)"
  by simp

lemma parse_chars_plain:
  "c \<noteq> 0x22 \<Longrightarrow> c \<noteq> 0x5C \<Longrightarrow> \<not> c < 0x20 \<Longrightarrow> parse_chars (c # r) = cons_unit c (parse_chars r)"
  by simp

lemma parse_chars_escaped:
  "unescape e = Some u \<Longrightarrow> e \<noteq> 0x75 \<Longrightarrow> parse_chars (0x5C # e # r) = cons_unit u (parse_chars r)"
  by simp

lemma parse_chars_unicode: "parse_chars (unicode_escape c @ r) = cons_unit c (parse_chars r)"
  by (simp add: unicode_escape_def Let_def hex4_unicode_digits)

declare parse_chars.simps [simp del]

lemma parse_chars_escape_unit:
  "parse_chars (escape_unit c @ r) = cons_unit c (parse_chars r)"
proof -
  consider "c = 0x08" | "c = 0x09" | "c = 0x0A" | "c = 0x0C" | "c = 0x0D" | "c = 0x22" | "c = 0x5C"
    | "c \<noteq> 0x08" "c \<noteq> 0x09" "c \<noteq> 0x0A" "c \<noteq> 0x0C" "c \<noteq> 0x0D" "c \<noteq> 0x22" "c \<noteq> 0x5C" "c < 0x20"
    | "c \<noteq> 0x08" "c \<noteq> 0x09" "c \<noteq> 0x0A" "c \<noteq> 0x0C" "c \<noteq> 0x0D" "c \<noteq> 0x22" "c \<noteq> 0x5C" "\<not> c < 0x20"
    by blast
  then show ?thesis
  proof cases
    case 8
    then show ?thesis by (simp add: escape_unit_def parse_chars_unicode)
  next
    case 9
    then show ?thesis by (simp add: escape_unit_def parse_chars_plain)
  qed (simp_all add: escape_unit_def parse_chars_escaped unescape_def)
qed

lemma high_plain: "is_high c \<Longrightarrow> c \<noteq> 0x22 \<and> c \<noteq> 0x5C \<and> \<not> c < 0x20"
  by (auto simp: is_high_def word_le_nat_alt word_less_nat_alt)

lemma low_plain: "is_low c \<Longrightarrow> c \<noteq> 0x22 \<and> c \<noteq> 0x5C \<and> \<not> c < 0x20"
  by (auto simp: is_low_def word_le_nat_alt word_less_nat_alt)

lemma parse_chars_quote_units: "parse_chars (quote_units s @ 0x22 # rest) = Some (s, rest)"
proof (induction s rule: quote_units.induct)
  case 1
  show ?case by (simp add: parse_chars_end)
next
  case (2 c cs)
  show ?case
  proof (cases "is_high c")
    case True
    note hc = this
    show ?thesis
    proof (cases cs)
      case Nil
      then show ?thesis
        using hc by (simp add: parse_chars_unicode parse_chars_end cons_unit_def)
    next
      case (Cons d ds)
      show ?thesis
      proof (cases "is_low d")
        case True
        with 2(1) [OF hc Cons True] show ?thesis
          using hc Cons high_plain [OF hc] low_plain [OF True]
          by (simp add: parse_chars_plain cons_unit_def)
      next
        case False
        with 2(2) [OF hc Cons False] show ?thesis
          using hc Cons by (simp add: parse_chars_unicode cons_unit_def)
      qed
    qed
  next
    case False
    note nh = this
    show ?thesis
    proof (cases "is_low c")
      case True
      with 2(3) [OF nh True] show ?thesis
        using nh by (simp add: parse_chars_unicode cons_unit_def)
    next
      case False
      with 2(4) [OF nh False] show ?thesis
        using nh by (simp add: parse_chars_escape_unit cons_unit_def)
    qed
  qed
qed

lemma parse_chars_quote: "parse_chars (tl (quote s) @ rest) = Some (s, rest)"
  by (simp add: quote_def parse_chars_quote_units)

section \<open>Serialize, then parse\<close>

lemma skip_ws_newline_indent [simp]: "skip_ws (newline_indent k @ s) = skip_ws s"
  by (simp add: skip_ws_def newline_indent_def is_ws_def dropWhile_append)

lemma skip_ws_idem [simp]: "skip_ws (skip_ws s) = skip_ws s"
  by (simp add: skip_ws_def)

lemma skip_ws_start: "\<not> is_ws c \<Longrightarrow> skip_ws (c # s) = c # s"
  by (simp add: skip_ws_def)

lemma parse_value_skip_ws: "parse_value n (skip_ws s) = parse_value n s"
  by (cases n) simp_all

lemma parse_members_skip_ws: "parse_members n acc (skip_ws s) = parse_members n acc s"
  by (cases n) simp_all

lemma parse_elements_skip_ws: "parse_elements n acc (skip_ws s) = parse_elements n acc s"
  by (cases n) (simp_all add: parse_value_skip_ws)

lemma join_strings_Cons:
  "join_strings sep (t # ts) = (if ts = [] then t else t @ sep @ join_strings sep ts)"
  by (cases ts) simp_all

lemma parse_null: "parse_value (Suc m) (js ''null'' @ rest) = Ok JNull rest"
  by (simp add: js_def skip_ws_def is_ws_def strip_prefix_def)

lemma parse_true: "parse_value (Suc m) (js ''true'' @ rest) = Ok (JBool True) rest"
  by (simp add: js_def skip_ws_def is_ws_def strip_prefix_def)

lemma parse_false: "parse_value (Suc m) (js ''false'' @ rest) = Ok (JBool False) rest"
  by (simp add: js_def skip_ws_def is_ws_def strip_prefix_def)

lemma parse_string: "parse_value (Suc m) (quote s @ rest) = Ok (JStr s) rest"
  by (simp add: quote_def skip_ws_def is_ws_def parse_chars_quote_units)

lemma parse_empty_array: "parse_value (Suc m) (js ''[]'' @ rest) = Ok (JArr []) rest"
  by (simp add: js_def skip_ws_def is_ws_def)

lemma parse_empty_object: "parse_value (Suc m) (js ''{}'' @ rest) = Ok (JObj []) rest"
  by (simp add: js_def skip_ws_def is_ws_def)

lemma starts_value_append [simp]: "starts_value t \<Longrightarrow> starts_value (t @ s)"
  by (cases t) (simp_all add: starts_value_def)

lemma starts_value_skip_ws: "starts_value t \<Longrightarrow> skip_ws (t @ s) = t @ s"
  by (cases t) (simp_all add: starts_value_def skip_ws_def)

lemma starts_value_quote [simp]: "starts_value (quote k @ s)"
  by (simp add: starts_value_def quote_def is_ws_def)

lemma parse_value_array:
  assumes "starts_value body"
  shows "parse_value (Suc m) (0x5B # newline_indent j @ body) = parse_elements m [] body"
proof -
  obtain c r where b: "body = c # r" "\<not> is_ws c" "c \<noteq> 0x5D"
    using assms by (cases body) (simp_all add: starts_value_def)
  have "skip_ws (newline_indent j @ body) = c # r"
    using b by (simp add: skip_ws_start)
  then show ?thesis
    using b by (simp add: skip_ws_start is_ws_def)
qed

lemma parse_value_object:
  "parse_value (Suc m) (0x7B # newline_indent j @ quote k @ s) = parse_members m [] (quote k @ s)"
proof -
  have "skip_ws (newline_indent j @ quote k @ s) = 0x22 # quote_units k @ 0x22 # s"
    by (simp add: quote_def skip_ws_start is_ws_def)
  then show ?thesis
    by (simp add: skip_ws_start is_ws_def quote_def)
qed

lemma parse_elements_last:
  assumes "parse_value m (t @ newline_indent k @ 0x5D # rest) = Ok x (newline_indent k @ 0x5D # rest)"
  shows "parse_elements (Suc m) acc (t @ newline_indent k @ 0x5D # rest) = Ok (JArr (acc @ [x])) rest"
  using assms by (simp add: skip_ws_start is_ws_def)

lemma parse_elements_next:
  assumes "parse_value m (t @ 0x2C # newline_indent n @ s) = Ok x (0x2C # newline_indent n @ s)"
  shows "parse_elements (Suc m) acc (t @ 0x2C # newline_indent n @ s) = parse_elements m (acc @ [x]) s"
proof -
  have "parse_elements m (acc @ [x]) (newline_indent n @ s) = parse_elements m (acc @ [x]) s"
    using parse_elements_skip_ws [of m "acc @ [x]" "newline_indent n @ s"]
      parse_elements_skip_ws [of m "acc @ [x]" s] by simp
  then show ?thesis
    using assms by (simp add: skip_ws_start is_ws_def)
qed

lemma set_prop_fresh: "k \<notin> fst ` set acc \<Longrightarrow> set_prop acc k v = acc @ [(k, v)]"
  by (induction acc k v rule: set_prop.induct) auto

lemma parse_members_key:
  "parse_members (Suc m) acc (quote k @ js '': '' @ s) =
     (case parse_value m s of
        OutOfFuel \<Rightarrow> OutOfFuel
      | Bad \<Rightarrow> Bad
      | Ok v r3 \<Rightarrow>
          (case skip_ws r3 of
             [] \<Rightarrow> Bad
           | c3 # r4 \<Rightarrow>
               if c3 = 0x2C then parse_members m (set_prop acc k v) r4
               else if c3 = 0x7D then Ok (JObj (set_prop acc k v)) r4
               else Bad))"
proof -
  have "parse_value m (0x20 # s) = parse_value m s"
    using parse_value_skip_ws [of m "0x20 # s"] parse_value_skip_ws [of m s]
    by (simp add: skip_ws_def is_ws_def)
  then show ?thesis
    by (simp add: quote_def js_def skip_ws_start is_ws_def parse_chars_quote_units)
qed

lemma parse_members_last:
  assumes "parse_value m (t @ newline_indent j @ 0x7D # rest) = Ok v (newline_indent j @ 0x7D # rest)"
    and "k \<notin> fst ` set acc"
  shows "parse_members (Suc m) acc (quote k @ js '': '' @ t @ newline_indent j @ 0x7D # rest) =
           Ok (JObj (acc @ [(k, v)])) rest"
  using assms by (simp add: parse_members_key skip_ws_start is_ws_def set_prop_fresh del: parse_members.simps)

lemma parse_members_next:
  assumes "parse_value m (t @ 0x2C # newline_indent n @ s) = Ok v (0x2C # newline_indent n @ s)"
    and "k \<notin> fst ` set acc"
  shows "parse_members (Suc m) acc (quote k @ js '': '' @ t @ 0x2C # newline_indent n @ s) =
           parse_members m (acc @ [(k, v)]) s"
proof -
  have "parse_members m (acc @ [(k, v)]) (newline_indent n @ s) = parse_members m (acc @ [(k, v)]) s"
    using parse_members_skip_ws [of m "acc @ [(k, v)]" "newline_indent n @ s"]
      parse_members_skip_ws [of m "acc @ [(k, v)]" s] by simp
  then show ?thesis
    using assms
    by (simp add: parse_members_key skip_ws_start is_ws_def set_prop_fresh del: parse_members.simps)
qed

lemma ser_roundtrip:
  "plain v \<Longrightarrow>
     \<exists>t. ser n v = Some t \<and> starts_value t \<and>
         (\<forall>m \<ge> length t. \<forall>rest. parse_value m (t @ rest) = Ok v rest)"
  "plain_elements xs \<Longrightarrow> xs \<noteq> [] \<Longrightarrow>
     starts_value (join_strings (0x2C # newline_indent n) (ser_elements n xs)) \<and>
     (\<forall>m > length (join_strings (0x2C # newline_indent n) (ser_elements n xs)). \<forall>acc rest k.
        parse_elements m acc
          (join_strings (0x2C # newline_indent n) (ser_elements n xs) @ newline_indent k @ 0x5D # rest) =
        Ok (JArr (acc @ xs)) rest)"
  "plain_members ps \<Longrightarrow> ps \<noteq> [] \<Longrightarrow>
     (\<exists>k s. join_strings (0x2C # newline_indent n) (ser_members n ps) = quote k @ s) \<and>
     (\<forall>m > length (join_strings (0x2C # newline_indent n) (ser_members n ps)). \<forall>acc rest j.
        fst ` set acc \<inter> fst ` set ps = {} \<longrightarrow>
        parse_members m acc
          (join_strings (0x2C # newline_indent n) (ser_members n ps) @ newline_indent j @ 0x7D # rest) =
        Ok (JObj (acc @ ps)) rest)"
proof (induction n v and n xs and n ps rule: ser_ser_elements_ser_members.induct)
  case (1 n)
  then show ?case by simp
next
  case (2 n)
  have "parse_value m (js ''null'' @ rest) = Ok JNull rest" if h: "length (js ''null'') \<le> m" for m rest
    using h parse_null by (cases m) (simp_all add: js_def)
  then show ?case
    by (simp add: starts_value_def js_def is_ws_def)
next
  case (3 n b)
  have "parse_value m (js ''true'' @ rest) = Ok (JBool True) rest" if h: "length (js ''true'') \<le> m" for m rest
    using h parse_true by (cases m) (simp_all add: js_def)
  moreover
  have "parse_value m (js ''false'' @ rest) = Ok (JBool False) rest" if h: "length (js ''false'') \<le> m" for m rest
    using h parse_false by (cases m) (simp_all add: js_def)
  ultimately show ?case
    by (cases b) (simp_all add: starts_value_def js_def is_ws_def)
next
  case (4 n x)
  then show ?case by simp
next
  case (5 n s)
  have "parse_value m (quote s @ rest) = Ok (JStr s) rest" if h: "length (quote s) \<le> m" for m rest
    using h parse_string by (cases m) (simp_all add: quote_def)
  then show ?case
    using starts_value_quote [of s "[]"] by simp
next
  case (6 n xs)
  show ?case
  proof (cases "xs = []")
    case True
    have "parse_value m (js ''[]'' @ rest) = Ok (JArr []) rest" if h: "length (js ''[]'') \<le> m" for m rest
      using h parse_empty_array by (cases m) (simp_all add: js_def)
    then show ?thesis
      using True by (simp add: starts_value_def js_def is_ws_def)
  next
    case False
    let ?body = "join_strings (0x2C # newline_indent (Suc n)) (ser_elements (Suc n) xs)"
    let ?t = "0x5B # newline_indent (Suc n) @ ?body @ newline_indent n @ [0x5D]"
    from 6 False have st: "starts_value ?body"
      and f: "\<forall>m > length ?body. \<forall>acc rest k.
        parse_elements m acc (?body @ newline_indent k @ 0x5D # rest) = Ok (JArr (acc @ xs)) rest"
      by simp_all
    have "parse_value m (?t @ rest) = Ok (JArr xs) rest" if h: "length ?t \<le> m" for m rest
    proof -
      obtain m' where m: "m = Suc m'" "length ?body < m'"
        by (cases m) (use h in auto)
      have "parse_value (Suc m') (0x5B # newline_indent (Suc n) @ (?body @ newline_indent n @ 0x5D # rest)) =
            parse_elements m' [] (?body @ newline_indent n @ 0x5D # rest)"
        using st by (intro parse_value_array) simp
      then show ?thesis
        using f m by simp
    qed
    moreover have "starts_value ?t"
      by (simp add: starts_value_def is_ws_def)
    moreover have "ser n (JArr xs) = Some ?t"
      using False by simp
    ultimately show ?thesis
      by blast
  qed
next
  case (7 n ps)
  show ?case
  proof (cases "ps = []")
    case True
    have "parse_value m (js ''{}'' @ rest) = Ok (JObj []) rest" if h: "length (js ''{}'') \<le> m" for m rest
      using h parse_empty_object by (cases m) (simp_all add: js_def)
    then show ?thesis
      using True by (simp add: starts_value_def js_def is_ws_def)
  next
    case False
    let ?body = "join_strings (0x2C # newline_indent (Suc n)) (ser_members (Suc n) ps)"
    let ?t = "0x7B # newline_indent (Suc n) @ ?body @ newline_indent n @ [0x7D]"
    from 7 False obtain k s where ks: "?body = quote k @ s"
      by auto
    from 7 False have f: "\<forall>m > length ?body. \<forall>acc rest j. fst ` set acc \<inter> fst ` set ps = {} \<longrightarrow>
        parse_members m acc (?body @ newline_indent j @ 0x7D # rest) = Ok (JObj (acc @ ps)) rest"
      by simp
    have ne: "ser_members (Suc n) ps \<noteq> []"
      using ks by (auto simp: quote_def)
    have "parse_value m (?t @ rest) = Ok (JObj ps) rest" if h: "length ?t \<le> m" for m rest
    proof -
      obtain m' where m: "m = Suc m'" "length ?body < m'"
        by (cases m) (use h in auto)
      have "parse_value (Suc m') (0x7B # newline_indent (Suc n) @ quote k @ (s @ newline_indent n @ 0x7D # rest)) =
            parse_members m' [] (quote k @ (s @ newline_indent n @ 0x7D # rest))"
        by (rule parse_value_object)
      moreover have "parse_members m' [] (?body @ newline_indent n @ 0x7D # rest) = Ok (JObj ps) rest"
        using f m(2) by simp
      ultimately show ?thesis
        using m(1) ks by simp
    qed
    moreover have "starts_value ?t"
      by (simp add: starts_value_def is_ws_def)
    moreover have "ser n (JObj ps) = Some ?t"
      using ne by (simp split: list.splits)
    ultimately show ?thesis
      by blast
  qed
next
  case (8 n)
  then show ?case by simp
next
  case (9 n x xs)
  from 9 have "\<exists>t. ser n x = Some t \<and> starts_value t \<and>
      (\<forall>m \<ge> length t. \<forall>rest. parse_value m (t @ rest) = Ok x rest)"
    by simp
  then obtain t where t: "ser n x = Some t" "starts_value t"
    and fx: "\<forall>m \<ge> length t. \<forall>rest. parse_value m (t @ rest) = Ok x rest"
    by blast
  let ?sep = "0x2C # newline_indent n"
  show ?case
  proof (cases "xs = []")
    case True
    have "parse_elements m acc (t @ newline_indent k @ 0x5D # rest) = Ok (JArr (acc @ [x])) rest"
      if h: "length t < m" for m acc rest k
    proof -
      obtain m' where m: "m = Suc m'" "length t \<le> m'"
        by (cases m) (use h in auto)
      show ?thesis
        unfolding m(1) using fx m(2) by (intro parse_elements_last) simp
    qed
    then show ?thesis
      using True t by simp
  next
    case False
    let ?tail = "join_strings ?sep (ser_elements n xs)"
    from 9 False have fxs: "\<forall>m > length ?tail. \<forall>acc rest k.
        parse_elements m acc (?tail @ newline_indent k @ 0x5D # rest) = Ok (JArr (acc @ xs)) rest"
      by simp
    have ne: "ser_elements n xs \<noteq> []"
      using False by (cases xs) simp_all
    have j: "join_strings ?sep (ser_elements n (x # xs)) = t @ 0x2C # newline_indent n @ ?tail"
      using t ne by (simp add: join_strings_Cons)
    have "parse_elements m acc ((t @ 0x2C # newline_indent n @ ?tail) @ newline_indent k @ 0x5D # rest) =
            Ok (JArr (acc @ x # xs)) rest"
      if h: "length (t @ 0x2C # newline_indent n @ ?tail) < m" for m acc rest k
    proof -
      obtain m' where m: "m = Suc m'" "length t \<le> m'" "length ?tail < m'"
        by (cases m) (use h in auto)
      have "parse_elements (Suc m') acc (t @ 0x2C # newline_indent n @ (?tail @ newline_indent k @ 0x5D # rest)) =
            parse_elements m' (acc @ [x]) (?tail @ newline_indent k @ 0x5D # rest)"
        using fx m(2) by (intro parse_elements_next) simp
      then show ?thesis
        using fxs m(1,3) by simp
    qed
    moreover have "starts_value (join_strings ?sep (ser_elements n (x # xs)))"
      unfolding j using t(2) by simp
    ultimately show ?thesis
      unfolding j by simp
  qed
next
  case (10 n)
  then show ?case by simp
next
  case (11 n k v ps)
  from 11(1) 11(4) have "\<exists>t. ser n v = Some t \<and> starts_value t \<and>
      (\<forall>m \<ge> length t. \<forall>rest. parse_value m (t @ rest) = Ok v rest)"
    by simp
  then obtain t where t: "ser n v = Some t"
    and fv: "\<forall>m \<ge> length t. \<forall>rest. parse_value m (t @ rest) = Ok v rest"
    by blast
  from 11(4) have fresh: "k \<notin> fst ` set ps" and pm: "plain_members ps"
    by simp_all
  let ?sep = "0x2C # newline_indent n"
  show ?case
  proof (cases "ps = []")
    case True
    have "parse_members m acc ((quote k @ js '': '' @ t) @ newline_indent j @ 0x7D # rest) =
            Ok (JObj (acc @ [(k, v)])) rest"
      if h: "length (quote k @ js '': '' @ t) < m" "fst ` set acc \<inter> fst ` set [(k, v)] = {}" for m acc rest j
    proof -
      obtain m' where m: "m = Suc m'" "length t \<le> m'"
        by (cases m) (use h in auto)
      have "parse_members (Suc m') acc (quote k @ js '': '' @ t @ newline_indent j @ 0x7D # rest) =
            Ok (JObj (acc @ [(k, v)])) rest"
        using h(2) fv m(2) by (intro parse_members_last) simp_all
      then show ?thesis
        using m(1) by simp
    qed
    moreover have "\<exists>k' s. quote k @ js '': '' @ t = quote k' @ s"
      by blast
    ultimately show ?thesis
      using True t by (simp del: parse_members.simps)
  next
    case False
    let ?tail = "join_strings ?sep (ser_members n ps)"
    from 11(3) [OF t pm False] have q: "\<exists>k s. ?tail = quote k @ s"
      and fps: "\<forall>m > length ?tail. \<forall>acc rest j. fst ` set acc \<inter> fst ` set ps = {} \<longrightarrow>
        parse_members m acc (?tail @ newline_indent j @ 0x7D # rest) = Ok (JObj (acc @ ps)) rest"
      by simp_all
    have ne: "ser_members n ps \<noteq> []"
      using q by (auto simp: quote_def)
    have j: "join_strings ?sep (ser_members n ((k, v) # ps)) =
               quote k @ js '': '' @ t @ 0x2C # newline_indent n @ ?tail"
      using t ne by (simp add: join_strings_Cons)
    have "parse_members m acc ((quote k @ js '': '' @ t @ 0x2C # newline_indent n @ ?tail) @ newline_indent j @ 0x7D # rest) =
            Ok (JObj (acc @ (k, v) # ps)) rest"
      if h: "length (quote k @ js '': '' @ t @ 0x2C # newline_indent n @ ?tail) < m"
        "fst ` set acc \<inter> fst ` set ((k, v) # ps) = {}" for m acc rest j
    proof -
      obtain m' where m: "m = Suc m'" "length t \<le> m'" "length ?tail < m'"
        by (cases m) (use h in auto)
      have ka: "k \<notin> fst ` set acc"
        using h(2) by auto
      have d: "fst ` set (acc @ [(k, v)]) \<inter> fst ` set ps = {}"
        using h(2) fresh by auto
      have "parse_members (Suc m') acc (quote k @ js '': '' @ t @ 0x2C # newline_indent n @ (?tail @ newline_indent j @ 0x7D # rest)) =
            parse_members m' (acc @ [(k, v)]) (?tail @ newline_indent j @ 0x7D # rest)"
        using fv m(2) ka by (intro parse_members_next) simp_all
      then show ?thesis
        using fps m(1,3) d by simp
    qed
    moreover have "\<exists>k' s. join_strings ?sep (ser_members n ((k, v) # ps)) = quote k' @ s"
      unfolding j by blast
    ultimately show ?thesis
      unfolding j by (simp del: parse_members.simps)
  qed
qed

theorem JSON_roundtrip:
  assumes "plain v"
  shows "\<exists>t. JSON_stringify v = Some t \<and> JSON_parse t = Inr v"
proof -
  from ser_roundtrip(1) [OF assms, of 0]
  obtain t where t: "ser 0 v = Some t"
    and f: "\<forall>m \<ge> length t. \<forall>rest. parse_value m (t @ rest) = Ok v rest"
    by blast
  have "parse_value (2 * length t + 1) (t @ []) = Ok v []"
    using f by (intro f [rule_format]) simp
  then have "JSON_parse t = Inr v"
    by (simp add: JSON_parse_def skip_ws_def)
  with t show ?thesis
    by (simp add: JSON_stringify_def)
qed

section \<open>The handlers\<close>

lemma nullish_simps [simp]:
  "nullish JUndefined" "nullish JNull" "\<not> nullish (JBool b)" "\<not> nullish (JNum x)"
  "\<not> nullish (JStr t)" "\<not> nullish (JArr xs)" "\<not> nullish (JObj ps)"
  by (simp_all add: nullish_def)


lemma triggerResync_answered:
  assumes "fetch_reply p = Response r" "\<not> nullish r"
  shows "\<exists>res. triggerResync p s = (Inr res, s\<lparr>calls := calls s @ [ResyncRequest]\<rparr>)"
  using assms by (simp add: triggerResync_def Let_def read_prop_def)

lemma triggerResync_no_response:
  assumes "fetch_reply p = NoResponse"
  shows "triggerResync p s = (Inl NetworkError, s\<lparr>calls := calls s @ [ResyncRequest]\<rparr>)"
  using assms by (simp add: triggerResync_def Let_def)

text \<open>
  C5: for every id and every state, when both resync requests are answered, deleting the
  id twice answers 200 with \<^verbatim>\<open>success: true\<close> both times, whether or not the bucket
  held the key. After the first call a read of the key finds nothing, and the second call
  leaves the bucket as the first left it.
\<close>

theorem delete_memory_idempotent:
  assumes "fetch_reply p1 = Response r1" "\<not> nullish r1" "fetch_reply p2 = Response r2" "\<not> nullish r2"
  shows "\<exists>b1 s1 b2 s2.
           delete_memory p1 mid s = (Inr b1, s1) \<and> res_status b1 = 200 \<and>
           get_prop (res_json b1) (js ''success'') = JBool True \<and>
           fst (r2_get (memory_key mid) s1) = None \<and>
           delete_memory p2 mid s1 = (Inr b2, s2) \<and> res_status b2 = 200 \<and>
           get_prop (res_json b2) (js ''success'') = JBool True \<and>
           MEMORIES_BUCKET s2 = MEMORIES_BUCKET s1"
proof -
  obtain res1 where 1: "triggerResync p1 (r2_delete (memory_key mid) s) =
      (Inr res1, (r2_delete (memory_key mid) s)\<lparr>calls := calls (r2_delete (memory_key mid) s) @ [ResyncRequest]\<rparr>)"
    using triggerResync_answered [OF assms(1,2)] by blast
  define s1 where "s1 = (r2_delete (memory_key mid) s)\<lparr>calls := calls (r2_delete (memory_key mid) s) @ [ResyncRequest]\<rparr>"
  obtain res2 where 2: "triggerResync p2 (r2_delete (memory_key mid) s1) =
      (Inr res2, (r2_delete (memory_key mid) s1)\<lparr>calls := calls (r2_delete (memory_key mid) s1) @ [ResyncRequest]\<rparr>)"
    using triggerResync_answered [OF assms(3,4)] by blast
  have d1: "delete_memory p1 mid s =
      (Inr (json_response 200
              (JObj [(js ''success'', JBool True),
                     (js ''resync'', if rs_success res1 then JObj [(js ''jobId'', rs_jobId res1)]
                                     else JObj [(js ''error'', rs_error res1)])])), s1)"
    using 1 by (simp add: delete_memory_def Let_def s1_def)
  have d2: "delete_memory p2 mid s1 =
      (Inr (json_response 200
              (JObj [(js ''success'', JBool True),
                     (js ''resync'', if rs_success res2 then JObj [(js ''jobId'', rs_jobId res2)]
                                     else JObj [(js ''error'', rs_error res2)])])),
       (r2_delete (memory_key mid) s1)\<lparr>calls := calls (r2_delete (memory_key mid) s1) @ [ResyncRequest]\<rparr>)"
    using 2 by (simp add: delete_memory_def Let_def)
  have g: "fst (r2_get (memory_key mid) s1) = None"
    by (simp add: r2_get_def s1_def r2_delete_def)
  have b: "MEMORIES_BUCKET ((r2_delete (memory_key mid) s1)\<lparr>calls := calls (r2_delete (memory_key mid) s1) @ [ResyncRequest]\<rparr>) =
           MEMORIES_BUCKET s1"
    by (simp add: s1_def r2_delete_def)
  show ?thesis
    using d1 d2 g b by (simp add: json_response_def)
qed


text \<open>
  C6: a create whose \<^verbatim>\<open>content\<close> is missing, empty or otherwise falsy, and a search
  whose query is missing or empty, are refused at once, on both surfaces: the REST handlers
  answer 400 and the tools answer a result with \<^verbatim>\<open>isError\<close>. The state is returned as
  it was, so no call to the store or to the search provider was made.
\<close>

theorem validation_errors:
  "(\<not> nullish body \<and> \<not> truthy (get_prop body (js ''content'')) \<longrightarrow>
      post_memories p body s =
        (Inr (json_response 400 (JObj [(js ''error'', JStr (js ''content is required and must be a string''))])), s)) \<and>
   (query = None \<or> query = Some [] \<longrightarrow>
      get_memories_search p query limitParam s =
        (Inr (json_response 400 (JObj [(js ''error'', JStr (js ''Query parameter q is required''))])), s)) \<and>
   (\<not> nullish request \<and> get_prop request (js ''method'') = JStr (js ''tools/call'') \<and>
    opt_prop (get_prop request (js ''params'')) (js ''name'') = JStr (js ''save_memory'') \<and>
    \<not> truthy (opt_prop (opt_prop (get_prop request (js ''params'')) (js ''arguments'')) (js ''content'')) \<longrightarrow>
      handleMcpRequest p request s =
        (Inr (mcpToolResult (get_prop request (js ''id'')) (js ''Error: content is required'') True), s)) \<and>
   (\<not> nullish request \<and> get_prop request (js ''method'') = JStr (js ''tools/call'') \<and>
    opt_prop (get_prop request (js ''params'')) (js ''name'') = JStr (js ''search_memories'') \<and>
    \<not> truthy (opt_prop (opt_prop (get_prop request (js ''params'')) (js ''arguments'')) (js ''query'')) \<longrightarrow>
      handleMcpRequest p request s =
        (Inr (mcpToolResult (get_prop request (js ''id'')) (js ''Error: query is required'') True), s))"
proof (intro conjI impI)
  assume "\<not> nullish body \<and> \<not> truthy (get_prop body (js ''content''))"
  then show "post_memories p body s =
        (Inr (json_response 400 (JObj [(js ''error'', JStr (js ''content is required and must be a string''))])), s)"
    by (simp add: post_memories_def read_prop_def)
next
  assume "query = None \<or> query = Some []"
  then show "get_memories_search p query limitParam s =
        (Inr (json_response 400 (JObj [(js ''error'', JStr (js ''Query parameter q is required''))])), s)"
    by (auto simp: get_memories_search_def Let_def)
next
  assume "\<not> nullish request \<and> get_prop request (js ''method'') = JStr (js ''tools/call'') \<and>
    opt_prop (get_prop request (js ''params'')) (js ''name'') = JStr (js ''save_memory'') \<and>
    \<not> truthy (opt_prop (opt_prop (get_prop request (js ''params'')) (js ''arguments'')) (js ''content''))"
  then show "handleMcpRequest p request s =
        (Inr (mcpToolResult (get_prop request (js ''id'')) (js ''Error: content is required'') True), s)"
    by (simp add: handleMcpRequest_def tools_call_def Let_def)
next
  assume "\<not> nullish request \<and> get_prop request (js ''method'') = JStr (js ''tools/call'') \<and>
    opt_prop (get_prop request (js ''params'')) (js ''name'') = JStr (js ''search_memories'') \<and>
    \<not> truthy (opt_prop (opt_prop (get_prop request (js ''params'')) (js ''arguments'')) (js ''query''))"
  then show "handleMcpRequest p request s =
        (Inr (mcpToolResult (get_prop request (js ''id'')) (js ''Error: query is required'') True), s)"
    by (simp add: handleMcpRequest_def tools_call_def Let_def)
qed

lemma stored_value_calls [simp]: "stored_value (s\<lparr>calls := c\<rparr>) = stored_value s"
  by (rule ext) (simp add: stored_value_def)

lemma read_listed_result:
  assumes "\<forall>key \<in> set keys. MEMORIES_BUCKET s key \<noteq> None \<longrightarrow> stored_value s key \<noteq> None"
  shows "read_listed keys memories s =
           (Inr (memories @ List.map_filter (stored_value s) keys), s\<lparr>calls := calls s @ map R2Get keys\<rparr>)"
  using assms
proof (induction keys arbitrary: memories s)
  case Nil
  then show ?case by (simp add: List.map_filter_simps)
next
  case (Cons key keys)
  let ?s1 = "s\<lparr>calls := calls s @ [R2Get key]\<rparr>"
  have ih: "read_listed keys ms ?s1 =
      (Inr (ms @ List.map_filter (stored_value s) keys), s\<lparr>calls := calls s @ map R2Get (key # keys)\<rparr>)" for ms
    using Cons.IH [of ?s1 ms] Cons.prems by simp
  show ?case
  proof (cases "MEMORIES_BUCKET s key")
    case None
    then have "stored_value s key = None"
      by (simp add: stored_value_def)
    with None show ?thesis
      using ih by (simp add: r2_get_def List.map_filter_simps)
  next
    case (Some obj)
    then obtain v where v: "JSON_parse (obj_body obj) = Inr v"
      using Cons.prems by (auto simp: stored_value_def split: sum.splits)
    with Some have "stored_value s key = Some v"
      by (simp add: stored_value_def)
    with v Some show ?thesis
      using ih by (simp add: r2_get_def List.map_filter_simps)
  qed
qed

lemma length_map_filter_present:
  assumes "\<forall>key \<in> set keys. MEMORIES_BUCKET s key \<noteq> None \<longrightarrow> stored_value s key \<noteq> None"
  shows "length (List.map_filter (stored_value s) keys) = length (filter (\<lambda>key. MEMORIES_BUCKET s key \<noteq> None) keys)"
  using assms
  by (induction keys) (auto simp: List.map_filter_simps stored_value_def split: option.splits)

lemma get_memories_result:
  assumes "\<forall>key \<in> set (listed_objects (list_reply p)).
             MEMORIES_BUCKET s key \<noteq> None \<longrightarrow> stored_value s key \<noteq> None"
  shows "\<exists>s'. get_memories p cursor limitParam s =
           (Inr (json_response 200
                   (JObj [(js ''memories'', JArr (List.map_filter (stored_value s) (listed_objects (list_reply p)))),
                          (js ''cursor'',
                           if listed_truncated (list_reply p) then listed_cursor (list_reply p) else JNull)])),
            s') \<and>
         length (List.map_filter (stored_value s) (listed_objects (list_reply p))) =
           length (filter (\<lambda>key. MEMORIES_BUCKET s key \<noteq> None) (listed_objects (list_reply p)))"
proof -
  let ?s1 = "s\<lparr>calls := calls s @
                  [R2List (js ''memories/'') (case limitParam of None \<Rightarrow> Fin 20 | Some l \<Rightarrow> if l \<noteq> [] then parseInt10 l else Fin 20)
                     (case cursor of None \<Rightarrow> None | Some c \<Rightarrow> if c \<noteq> [] then Some c else None)]\<rparr>"
  have "\<forall>key \<in> set (listed_objects (list_reply p)).
             MEMORIES_BUCKET ?s1 key \<noteq> None \<longrightarrow> stored_value ?s1 key \<noteq> None"
    using assms by simp
  from read_listed_result [OF this, of "[]"] length_map_filter_present [OF assms]
  show ?thesis
    by (simp add: get_memories_def Let_def)
qed

text \<open>
  C9: when every listed object that the bucket still holds is JSON, \<^verbatim>\<open>GET /memories\<close>
  answers 200 with the values of exactly those objects, in the order of the listing: a
  listed key that the bucket no longer holds is left out and raises nothing, so the answer
  has as many memories as listed keys that are still there, which may be fewer than the
  listing has.
\<close>

theorem get_memories_omits_missing:
  assumes "\<forall>key \<in> set (listed_objects (list_reply p)).
             MEMORIES_BUCKET s key \<noteq> None \<longrightarrow> stored_value s key \<noteq> None"
  shows "\<exists>s'. get_memories p cursor limitParam s =
           (Inr (json_response 200
                   (JObj [(js ''memories'', JArr (List.map_filter (stored_value s) (listed_objects (list_reply p)))),
                          (js ''cursor'',
                           if listed_truncated (list_reply p) then listed_cursor (list_reply p) else JNull)])),
            s') \<and>
         length (List.map_filter (stored_value s) (listed_objects (list_reply p))) =
           length (filter (\<lambda>key. MEMORIES_BUCKET s key \<noteq> None) (listed_objects (list_reply p)))"
  using assms by (rule get_memories_result)

lemma map_of_set_prop: "map_of (set_prop ps k v) k = Some v"
  by (induction ps k v rule: set_prop.induct) simp_all

lemma normalize_score: "get_prop (normalize_item now item) (js ''score'') = JNum (item_score item)"
  by (simp add: normalize_item_def synthetic_def map_of_set_prop split: sum.splits)



lemma searchMemories_calls:
  "calls (snd (searchMemories p query limit s)) =
     calls s @ [AiSearch query (Math_min (if limit = JUndefined then JNum (Fin 5) else limit) (JNum (Fin 50))) True (1 / 10)]"
  by (simp add: searchMemories_def Let_def split: search_reply.splits)

lemma Math_min_Fin [simp]: "Math_min (JNum (Fin a)) (JNum (Fin b)) = Fin (min a b)"
  by (simp add: Math_min_def num_le_def min_def)

lemma rest_search_calls:
  assumes "q \<noteq> []"
  shows "calls (snd (get_memories_search p (Some q) limitParam s)) =
           calls s @ [AiSearch (JStr q)
                        (Math_min (JNum (case limitParam of None \<Rightarrow> Fin 5 | Some l \<Rightarrow> if l \<noteq> [] then parseInt10 l else Fin 5))
                           (JNum (Fin 50))) True (1 / 10)]"
proof -
  obtain r s' where r: "searchMemories p (JStr q)
      (JNum (case limitParam of None \<Rightarrow> Fin 5 | Some l \<Rightarrow> if l \<noteq> [] then parseInt10 l else Fin 5)) s = (r, s')"
    by (cases "searchMemories p (JStr q)
      (JNum (case limitParam of None \<Rightarrow> Fin 5 | Some l \<Rightarrow> if l \<noteq> [] then parseInt10 l else Fin 5)) s")
  from searchMemories_calls [of p "JStr q"
      "JNum (case limitParam of None \<Rightarrow> Fin 5 | Some l \<Rightarrow> if l \<noteq> [] then parseInt10 l else Fin 5)" s] r
  have "calls s' = calls s @ [AiSearch (JStr q)
                        (Math_min (JNum (case limitParam of None \<Rightarrow> Fin 5 | Some l \<Rightarrow> if l \<noteq> [] then parseInt10 l else Fin 5))
                           (JNum (Fin 50))) True (1 / 10)]"
    by simp
  then show ?thesis
    using assms r by (simp add: get_memories_search_def Let_def split: sum.splits)
qed

lemma mcp_search_calls:
  assumes "\<not> nullish request" "get_prop request (js ''method'') = JStr (js ''tools/call'')"
    and "opt_prop (get_prop request (js ''params'')) (js ''name'') = JStr (js ''search_memories'')"
    and "opt_prop (opt_prop (get_prop request (js ''params'')) (js ''arguments'')) (js ''query'') = query"
    and "truthy query"
    and "opt_prop (opt_prop (get_prop request (js ''params'')) (js ''arguments'')) (js ''limit'') = limit"
  shows "calls (snd (handleMcpRequest p request s)) =
           calls s @ [AiSearch query (Math_min (or_else limit (JNum (Fin 5))) (JNum (Fin 50))) True (1 / 10)]"
proof -
  obtain r s' where r: "searchMemories p query (or_else limit (JNum (Fin 5))) s = (r, s')"
    by (cases "searchMemories p query (or_else limit (JNum (Fin 5))) s")
  have "or_else limit (JNum (Fin 5)) \<noteq> JUndefined"
    by (auto simp: or_else_def)
  with searchMemories_calls [of p query "or_else limit (JNum (Fin 5))" s] r
  have "calls s' = calls s @ [AiSearch query (Math_min (or_else limit (JNum (Fin 5))) (JNum (Fin 50))) True (1 / 10)]"
    by simp
  then show ?thesis
    using assms r by (simp add: handleMcpRequest_def tools_call_def Let_def split: sum.splits)
qed

lemma parseInt10_zero: "parseInt10 (js ''0'') = Fin 0"
  by (simp add: parseInt10_def js_def take_sign_def is_str_ws_def is_digit_def decimal_def digits_val_def)

lemma mcp_call_props [simp]:
  "\<not> nullish (mcp_call tool args)"
  "get_prop (mcp_call tool args) (js ''method'') = JStr (js ''tools/call'')"
  "get_prop (mcp_call tool args) (js ''id'') = JNum (Fin 1)"
  "get_prop (mcp_call tool args) (js ''params'') = JObj [(js ''name'', JStr (js tool)), (js ''arguments'', JObj args)]"
  by (simp_all add: mcp_call_def)

text \<open>
  C7, at a limit of 0: the tool \<^verbatim>\<open>search_memories\<close> takes the limit 0 for a missing
  one and asks the provider for 5 results, where \<^verbatim>\<open>GET /memories/search?limit=0\<close> asks
  for 0, the limit capped at 50.
\<close>

theorem mcp_limit_zero_requests_five:
  "calls (snd (handleMcpRequest ex_search
                 (mcp_call ''search_memories'' [(js ''query'', JStr (js ''tabs'')), (js ''limit'', JNum (Fin 0))])
                 empty_env)) =
     [AiSearch (JStr (js ''tabs'')) (Fin 5) True (1 / 10)] \<and>
   calls (snd (get_memories_search ex_search (Some (js ''tabs'')) (Some (js ''0'')) empty_env)) =
     [AiSearch (JStr (js ''tabs'')) (Fin 0) True (1 / 10)]"
proof
  show "calls (snd (handleMcpRequest ex_search
                 (mcp_call ''search_memories'' [(js ''query'', JStr (js ''tabs'')), (js ''limit'', JNum (Fin 0))])
                 empty_env)) =
     [AiSearch (JStr (js ''tabs'')) (Fin 5) True (1 / 10)]"
    by (subst mcp_search_calls [where query = "JStr (js ''tabs'')" and limit = "JNum (Fin 0)"])
       (simp_all add: opt_prop_def or_else_def empty_env_def)
  show "calls (snd (get_memories_search ex_search (Some (js ''tabs'')) (Some (js ''0'')) empty_env)) =
     [AiSearch (JStr (js ''tabs'')) (Fin 0) True (1 / 10)]"
    by (subst rest_search_calls) (simp_all add: parseInt10_zero empty_env_def)
qed

section \<open>Creating and fetching\<close>

lemma triggerResync_snd: "snd (triggerResync p s) = s\<lparr>calls := calls s @ [ResyncRequest]\<rparr>"
  by (simp add: triggerResync_def Let_def read_prop_def split: fetch_reply.splits sum.splits)

lemma triggerResync_fst: "fst (triggerResync p s) = fst (triggerResync p s')"
  by (simp add: triggerResync_def Let_def read_prop_def split: fetch_reply.splits sum.splits)

lemma JSON_stringify_object: "\<exists>text. JSON_stringify (JObj ps) = Some text"
  by (simp add: JSON_stringify_def)

lemma saveMemory_array:
  assumes "(if tags_arg = JUndefined then JArr [] else tags_arg) = JArr ts"
  shows "\<exists>text. JSON_stringify (new_memory p content tags_arg source_arg) = Some text \<and>
           saveMemory p content tags_arg source_arg s =
             (case fst (triggerResync p s) of
                Inl e \<Rightarrow> Inl e
              | Inr resync \<Rightarrow> Inr (new_memory p content tags_arg source_arg),
              \<lparr>MEMORIES_BUCKET =
                 (MEMORIES_BUCKET s)(memory_key (randomUUID p) \<mapsto>
                    \<lparr>obj_body = text, obj_contentType = js ''application/json'',
                     obj_customMetadata =
                       [(js ''tags'', JStr (join_items (js '','') ts)),
                        (js ''source'', if source_arg = JUndefined then JStr (js ''user'') else source_arg),
                        (js ''createdAt'', JStr (toISOString (clock p 0)))]\<rparr>),
               calls = calls s @ [R2Put (memory_key (randomUUID p)), ResyncRequest]\<rparr>)"
proof -
  obtain blob where tx: "JSON_stringify (new_memory p content tags_arg source_arg) = Some blob"
    unfolding new_memory_def using JSON_stringify_object by blast
  let ?s1 = "r2_put (memory_key (randomUUID p))
                \<lparr>obj_body = blob, obj_contentType = js ''application/json'',
                 obj_customMetadata =
                   [(js ''tags'', JStr (join_items (js '','') ts)),
                    (js ''source'', if source_arg = JUndefined then JStr (js ''user'') else source_arg),
                    (js ''createdAt'', JStr (toISOString (clock p 0)))]\<rparr> s"
  have tr: "triggerResync p ?s1 = (fst (triggerResync p s), ?s1\<lparr>calls := calls ?s1 @ [ResyncRequest]\<rparr>)"
    using triggerResync_snd [of p ?s1] triggerResync_fst [of p ?s1 s]
    by (metis prod.collapse)
  have "saveMemory p content tags_arg source_arg s =
          (case triggerResync p ?s1 of
             (Inl e, s2) \<Rightarrow> (Inl e, s2)
           | (Inr resync, s2) \<Rightarrow> (Inr (new_memory p content tags_arg source_arg), s2))"
    unfolding saveMemory_def Let_def new_memory_def [symmetric]
    using assms tx by (simp add: array_join_def)
  also have "\<dots> = (case fst (triggerResync p s) of
                Inl e \<Rightarrow> Inl e
              | Inr resync \<Rightarrow> Inr (new_memory p content tags_arg source_arg),
              ?s1\<lparr>calls := calls ?s1 @ [ResyncRequest]\<rparr>)"
    unfolding tr by (simp split: sum.splits)
  finally show ?thesis
    using tx by (simp add: r2_put_def)
qed

lemma plain_elements_strings: "plain_elements (map JStr ts)"
  by (induction ts) simp_all

lemma plain_new_memory:
  assumes "tags_arg = JUndefined \<or> tags_arg = JArr (map JStr tags)"
    and "source_arg = JUndefined \<or> source_arg = JStr source"
  shows "plain (new_memory p (JStr content) tags_arg source_arg)"
  using assms by (auto simp: new_memory_def plain_elements_strings)

lemma new_memory_props [simp]:
  "get_prop (new_memory p content tags_arg source_arg) (js ''id'') = JStr (randomUUID p)"
  "get_prop (new_memory p content tags_arg source_arg) (js ''content'') = content"
  "get_prop (new_memory p content tags_arg source_arg) (js ''tags'') =
     (if tags_arg = JUndefined then JArr [] else tags_arg)"
  "get_prop (new_memory p content tags_arg source_arg) (js ''source'') =
     (if source_arg = JUndefined then JStr (js ''user'') else source_arg)"
  "get_prop (new_memory p content tags_arg source_arg) (js ''createdAt'') = JStr (toISOString (clock p 0))"
  by (simp_all add: new_memory_def)

lemma saveMemory_stored:
  assumes "tags_arg = JUndefined \<or> tags_arg = JArr (map JStr tags)"
    and "source_arg = JUndefined \<or> source_arg = JStr source"
  shows "\<exists>s'. saveMemory p (JStr content) tags_arg source_arg s =
                (case fst (triggerResync p s) of
                   Inl e \<Rightarrow> Inl e
                 | Inr resync \<Rightarrow> Inr (new_memory p (JStr content) tags_arg source_arg), s') \<and>
              stored_value s' (memory_key (randomUUID p)) = Some (new_memory p (JStr content) tags_arg source_arg)"
proof -
  obtain ts where ts: "(if tags_arg = JUndefined then JArr [] else tags_arg) = JArr ts"
    using assms(1) by auto
  from saveMemory_array [OF ts, of p "JStr content" source_arg s]
  obtain blob s' where b: "JSON_stringify (new_memory p (JStr content) tags_arg source_arg) = Some blob"
    and sv: "saveMemory p (JStr content) tags_arg source_arg s =
                (case fst (triggerResync p s) of
                   Inl e \<Rightarrow> Inl e
                 | Inr resync \<Rightarrow> Inr (new_memory p (JStr content) tags_arg source_arg), s')"
    and bk: "\<exists>obj. MEMORIES_BUCKET s' (memory_key (randomUUID p)) = Some obj \<and> obj_body obj = blob"
    by auto
  from JSON_roundtrip [OF plain_new_memory [OF assms, of p content]] b
  have "JSON_parse blob = Inr (new_memory p (JStr content) tags_arg source_arg)"
    by auto
  with bk have "stored_value s' (memory_key (randomUUID p)) = Some (new_memory p (JStr content) tags_arg source_arg)"
    by (auto simp: stored_value_def)
  with sv show ?thesis
    by blast
qed

text \<open>
  C4: for every content string, every list of string tags (or none) and every source
  \<^verbatim>\<open>user\<close> or \<^verbatim>\<open>auto\<close> (or none), when \<open>saveMemory\<close> has returned a Memory, a
  later \<^verbatim>\<open>GET /memories\<close> whose listing is the key of the returned id answers with
  exactly that Memory: the object stored under the key parses back to the Memory that was
  serialized. Its content, tags and source are the inputs (the defaults where none was
  given), and its \<^verbatim>\<open>createdAt\<close> is the ISO form of a clock reading that is not later
  than the time of the fetch, the clock never running backwards.
\<close>

theorem create_then_fetch:
  assumes "tags_arg = JUndefined \<or> tags_arg = JArr (map JStr tags)"
    and "source_arg = JUndefined \<or> source_arg = JStr (js ''user'') \<or> source_arg = JStr (js ''auto'')"
    and "saveMemory p (JStr content) tags_arg source_arg s = (Inr memory, s')"
    and "listed_objects (list_reply p') = [memory_key (js_toString (get_prop memory (js ''id'')))]"
    and "clock p 0 \<le> now"
  shows "(\<exists>s''. get_memories p' cursor limitParam s' =
            (Inr (json_response 200
                    (JObj [(js ''memories'', JArr [memory]),
                           (js ''cursor'',
                            if listed_truncated (list_reply p') then listed_cursor (list_reply p') else JNull)])),
             s'')) \<and>
         stored_value s' (memory_key (js_toString (get_prop memory (js ''id'')))) = Some memory \<and>
         get_prop memory (js ''content'') = JStr content \<and>
         get_prop memory (js ''tags'') = (if tags_arg = JUndefined then JArr [] else JArr (map JStr tags)) \<and>
         get_prop memory (js ''source'') = (if source_arg = JUndefined then JStr (js ''user'') else source_arg) \<and>
         (\<exists>t \<le> now. get_prop memory (js ''createdAt'') = JStr (toISOString t))"
proof -
  have src: "source_arg = JUndefined \<or> source_arg = JStr (if source_arg = JStr (js ''user'') then js ''user'' else js ''auto'')"
    using assms(2) by auto
  from saveMemory_stored [OF assms(1) src, of p content s] assms(3)
  have m: "memory = new_memory p (JStr content) tags_arg source_arg"
    and sv: "stored_value s' (memory_key (randomUUID p)) = Some (new_memory p (JStr content) tags_arg source_arg)"
    by (auto split: sum.splits)
  have key: "memory_key (js_toString (get_prop memory (js ''id''))) = memory_key (randomUUID p)"
    using m by simp
  have "\<forall>key \<in> set (listed_objects (list_reply p')). MEMORIES_BUCKET s' key \<noteq> None \<longrightarrow> stored_value s' key \<noteq> None"
    using assms(4) sv key by simp
  from get_memories_result [OF this, of cursor limitParam]
  have "\<exists>s''. get_memories p' cursor limitParam s' =
            (Inr (json_response 200
                    (JObj [(js ''memories'', JArr [memory]),
                           (js ''cursor'',
                            if listed_truncated (list_reply p') then listed_cursor (list_reply p') else JNull)])),
             s'')"
    using assms(4) sv key m by (auto simp: List.map_filter_simps)
  moreover have "\<exists>t \<le> now. get_prop memory (js ''createdAt'') = JStr (toISOString t)"
    using assms(5) m by auto
  ultimately show ?thesis
    using m sv key assms(1) by auto
qed

text \<open>
  When the reindex request gets no readable response, \<open>saveMemory\<close> raises the error
  to its caller, and the Memory is already in the bucket.
\<close>

lemma saveMemory_unanswered:
  assumes "fetch_reply p = NoResponse"
    and "tags_arg = JUndefined \<or> tags_arg = JArr ts"
  shows "fst (saveMemory p content tags_arg source_arg s) = Inl NetworkError \<and>
         MEMORIES_BUCKET (snd (saveMemory p content tags_arg source_arg s)) (memory_key (randomUUID p)) \<noteq> None"
proof -
  have "\<exists>xs. (if tags_arg = JUndefined then JArr [] else tags_arg) = JArr xs"
    using assms(2) by auto
  then obtain xs where "(if tags_arg = JUndefined then JArr [] else tags_arg) = JArr xs" ..
  from saveMemory_array [OF this, of p content source_arg s] triggerResync_no_response [OF assms(1), of s]
  show ?thesis
    by auto
qed

text \<open>
  C1, amended: for every content string, tags and source as in C4, when the reindex request
  is answered with a JSON value, whether the provider accepted or rejected it,
  \<open>saveMemory\<close> returns the new Memory, the object stored under its key parses back to
  it, a read of that key returns it, and the Memory is the same whatever the reply was.
  (When the request is not answered at all the error goes to the caller, although the
  Memory is stored: see the counterexample.)
\<close>

theorem create_survives_rejection:
  assumes "fetch_reply p = Response r" and "\<not> nullish r"
    and "tags_arg = JUndefined \<or> tags_arg = JArr (map JStr tags)"
    and "source_arg = JUndefined \<or> source_arg = JStr (js ''user'') \<or> source_arg = JStr (js ''auto'')"
  shows "\<exists>s'. saveMemory p (JStr content) tags_arg source_arg s =
                (Inr (new_memory p (JStr content) tags_arg source_arg), s') \<and>
              stored_value s' (memory_key (randomUUID p)) = Some (new_memory p (JStr content) tags_arg source_arg) \<and>
              fst (read_listed [memory_key (randomUUID p)] [] s') =
                Inr [new_memory p (JStr content) tags_arg source_arg] \<and>
              new_memory (p\<lparr>fetch_reply := other\<rparr>) (JStr content) tags_arg source_arg =
                new_memory p (JStr content) tags_arg source_arg"
proof -
  have src: "source_arg = JUndefined \<or> source_arg = JStr (if source_arg = JStr (js ''user'') then js ''user'' else js ''auto'')"
    using assms(4) by auto
  obtain res where "fst (triggerResync p s) = Inr res"
    using triggerResync_answered [OF assms(1,2), of s] by auto
  with saveMemory_stored [OF assms(3) src, of p content s]
  obtain s' where sv: "saveMemory p (JStr content) tags_arg source_arg s =
                (Inr (new_memory p (JStr content) tags_arg source_arg), s')"
    and st: "stored_value s' (memory_key (randomUUID p)) = Some (new_memory p (JStr content) tags_arg source_arg)"
    by auto
  have "\<forall>key \<in> set [memory_key (randomUUID p)]. MEMORIES_BUCKET s' key \<noteq> None \<longrightarrow> stored_value s' key \<noteq> None"
    using st by simp
  from read_listed_result [OF this, of "[]"] st
  have "fst (read_listed [memory_key (randomUUID p)] [] s') = Inr [new_memory p (JStr content) tags_arg source_arg]"
    by (simp add: List.map_filter_simps)
  with sv st show ?thesis
    by (simp add: new_memory_def)
qed

section \<open>The normalizer\<close>

lemma map_of_set_prop_other: "k' \<noteq> k \<Longrightarrow> map_of (set_prop ps k v) k' = map_of ps k'"
  by (induction ps k v rule: set_prop.induct) simp_all

lemma JSON_parse_true: "JSON_parse (js ''true'') = Inr (JBool True)"
  by code_simp

lemma JSON_parse_tabs: "JSON_parse (js ''Always use tabs'') = Inl SyntaxError"
  by code_simp

lemma ex_item_fields [simp]:
  "text_content (ex_item t) = js t"
  "item_score (ex_item t) = Fin (82 / 100)"
  "item_file_id (ex_item t) = js ''memories/0b0e6a7c.json''"
  by (simp_all add: text_content_def ex_item_def)

text \<open>
  What the loop body makes of an item. The text is the item's text chunks, in order,
  joined by line feeds. When \<open>JSON_parse\<close> raises on the text, the value is the synthetic
  one: the file identifier as \<^verbatim>\<open>id\<close>, the text as \<^verbatim>\<open>content\<close>, no tags, source
  \<^verbatim>\<open>auto\<close>, the current time as \<^verbatim>\<open>createdAt\<close>, and the score. When the text is the
  text of a serialized Memory, the value is its five fields and the score. The search
  itself returns whenever the provider answers.
\<close>

lemma normalize_item_cases:
  "text_content item =
     join_strings [0x0A] (map chunk_text (filter (\<lambda>c. chunk_type c = js ''text'') (item_content item))) \<and>
   (\<forall>e. JSON_parse (text_content item) = Inl e \<longrightarrow>
      normalize_item now item =
        JObj [(js ''id'', JStr (item_file_id item)), (js ''content'', JStr (text_content item)),
              (js ''tags'', JArr []), (js ''source'', JStr (js ''auto'')),
              (js ''createdAt'', JStr (toISOString now)), (js ''score'', JNum (item_score item))]) \<and>
   (\<forall>m. JSON_parse (text_content item) = Inr m \<longrightarrow>
      normalize_item now item = JObj (set_prop (own_enumerable m) (js ''score'') (JNum (item_score item))) \<and>
      (is_memory m \<longrightarrow>
         get_prop (normalize_item now item) (js ''id'') = get_prop m (js ''id'') \<and>
         get_prop (normalize_item now item) (js ''content'') = get_prop m (js ''content'') \<and>
         get_prop (normalize_item now item) (js ''tags'') = get_prop m (js ''tags'') \<and>
         get_prop (normalize_item now item) (js ''source'') = get_prop m (js ''source'') \<and>
         get_prop (normalize_item now item) (js ''score'') = JNum (item_score item))) \<and>
   (\<forall>mid content tags source createdAt.
      JSON_stringify (memory_value mid content tags source createdAt) = Some (text_content item) \<longrightarrow>
      normalize_item now item =
        JObj [(js ''id'', JStr mid), (js ''content'', JStr content), (js ''tags'', JArr (map JStr tags)),
              (js ''source'', JStr source), (js ''createdAt'', JStr createdAt),
              (js ''score'', JNum (item_score item))]) \<and>
   (\<forall>(p :: platform) items query limit s. search_reply p = SearchResults items \<longrightarrow>
      (\<exists>memories s'. searchMemories p query limit s = (Inr memories, s')))"
proof (intro conjI allI impI)
  show "text_content item =
     join_strings [0x0A] (map chunk_text (filter (\<lambda>c. chunk_type c = js ''text'') (item_content item)))"
    by (simp add: text_content_def)
next
  fix e assume "JSON_parse (text_content item) = Inl e"
  then show "normalize_item now item =
        JObj [(js ''id'', JStr (item_file_id item)), (js ''content'', JStr (text_content item)),
              (js ''tags'', JArr []), (js ''source'', JStr (js ''auto'')),
              (js ''createdAt'', JStr (toISOString now)), (js ''score'', JNum (item_score item))]"
    by (simp add: normalize_item_def synthetic_def)
next
  fix m assume "JSON_parse (text_content item) = Inr m"
  then show "normalize_item now item = JObj (set_prop (own_enumerable m) (js ''score'') (JNum (item_score item)))"
    by (simp add: normalize_item_def)
next
  fix m assume p: "JSON_parse (text_content item) = Inr m" and "is_memory m"
  then obtain ps where m: "m = JObj ps"
    by (cases m) (simp_all add: is_memory_def)
  have n: "normalize_item now item = JObj (set_prop ps (js ''score'') (JNum (item_score item)))"
    using p m by (simp add: normalize_item_def)
  show "get_prop (normalize_item now item) (js ''id'') = get_prop m (js ''id'')"
    unfolding n m by (simp add: map_of_set_prop_other)
  show "get_prop (normalize_item now item) (js ''content'') = get_prop m (js ''content'')"
    unfolding n m by (simp add: map_of_set_prop_other)
  show "get_prop (normalize_item now item) (js ''tags'') = get_prop m (js ''tags'')"
    unfolding n m by (simp add: map_of_set_prop_other)
  show "get_prop (normalize_item now item) (js ''source'') = get_prop m (js ''source'')"
    unfolding n m by (simp add: map_of_set_prop_other)
  show "get_prop (normalize_item now item) (js ''score'') = JNum (item_score item)"
    by (rule normalize_score)
next
  fix mid content tags source createdAt
  assume s: "JSON_stringify (memory_value mid content tags source createdAt) = Some (text_content item)"
  have "plain (memory_value mid content tags source createdAt)"
    by (simp add: memory_value_def plain_elements_strings)
  from JSON_roundtrip [OF this] s
  have "JSON_parse (text_content item) = Inr (memory_value mid content tags source createdAt)"
    by auto
  then show "normalize_item now item =
        JObj [(js ''id'', JStr mid), (js ''content'', JStr content), (js ''tags'', JArr (map JStr tags)),
              (js ''source'', JStr source), (js ''createdAt'', JStr createdAt),
              (js ''score'', JNum (item_score item))]"
    by (simp add: normalize_item_def memory_value_def)
next
  fix p :: platform and items query limit s
  assume "search_reply p = SearchResults items"
  then show "\<exists>memories s'. searchMemories p query limit s = (Inr memories, s')"
    by (simp add: searchMemories_def Let_def)
qed

lemma normalize_item_cases_example:
  "normalize_item 1700000000000 (ex_item ''Always use tabs'') =
     JObj [(js ''id'', JStr (js ''memories/0b0e6a7c.json'')), (js ''content'', JStr (js ''Always use tabs'')),
           (js ''tags'', JArr []), (js ''source'', JStr (js ''auto'')),
           (js ''createdAt'', JStr (toISOString 1700000000000)), (js ''score'', JNum (Fin (82 / 100)))]"
  using normalize_item_cases [of "ex_item ''Always use tabs''" 1700000000000] JSON_parse_tabs
  by simp

lemma ex_search_normalized:
  "searchMemories ex_search (JStr (js ''tabs'')) (JNum (Fin 5)) empty_env =
     (Inr [synthetic 1700000000000 (ex_item ''Always use tabs''), JObj [(js ''score'', JNum (Fin (82 / 100)))]],
      empty_env\<lparr>calls := [AiSearch (JStr (js ''tabs'')) (Fin 5) True (1 / 10)]\<rparr>)"
  by (simp add: searchMemories_def Let_def ex_search_def ex_rejected_def normalize_item_def
      JSON_parse_true JSON_parse_tabs empty_env_def)

lemma format_true_raises:
  "format_memories 0
     [synthetic 1700000000000 (ex_item ''Always use tabs''), JObj [(js ''score'', JNum (Fin (82 / 100)))]] =
   Inl TypeError"
  by (simp add: format_memory_def synthetic_def read_prop_def get_prop.simps positive_def)

text \<open>
  C2, at the text \<^verbatim>\<open>true\<close>: the text is JSON and not a serialized Memory, so parsing
  it as one fails. The normalizer does not emit the synthetic value with the file
  identifier and the raw text: it emits an object with the score alone, which has none
  of \<^verbatim>\<open>id\<close>, \<^verbatim>\<open>content\<close>, \<^verbatim>\<open>tags\<close>, \<^verbatim>\<open>source\<close> and \<^verbatim>\<open>createdAt\<close>.
  \<open>searchMemories\<close> returns it among its results, and the tool
  \<^verbatim>\<open>search_memories\<close> then raises a \<^verbatim>\<open>TypeError\<close> on its missing tags.
\<close>

theorem valid_json_is_not_fallback:
  "\<not> parses_as_memory (text_content (ex_item ''true'')) \<and>
   normalize_item 1700000000000 (ex_item ''true'') = JObj [(js ''score'', JNum (Fin (82 / 100)))] \<and>
   normalize_item 1700000000000 (ex_item ''true'') \<noteq> synthetic 1700000000000 (ex_item ''true'') \<and>
   fst (searchMemories ex_search (JStr (js ''tabs'')) (JNum (Fin 5)) empty_env) =
     Inr [synthetic 1700000000000 (ex_item ''Always use tabs''), JObj [(js ''score'', JNum (Fin (82 / 100)))]] \<and>
   fst (handleMcpRequest ex_search (mcp_call ''search_memories'' [(js ''query'', JStr (js ''tabs''))]) empty_env) =
     Inl TypeError"
proof (intro conjI)
  show "\<not> parses_as_memory (text_content (ex_item ''true''))"
    by (simp add: parses_as_memory_def JSON_parse_true is_memory_def)
  show "normalize_item 1700000000000 (ex_item ''true'') = JObj [(js ''score'', JNum (Fin (82 / 100)))]"
    by (simp add: JSON_parse_true normalize_item_def)
  show "normalize_item 1700000000000 (ex_item ''true'') \<noteq> synthetic 1700000000000 (ex_item ''true'')"
    by (simp add: JSON_parse_true normalize_item_def synthetic_def)
  show "fst (searchMemories ex_search (JStr (js ''tabs'')) (JNum (Fin 5)) empty_env) =
     Inr [synthetic 1700000000000 (ex_item ''Always use tabs''), JObj [(js ''score'', JNum (Fin (82 / 100)))]]"
    by (simp add: ex_search_normalized)
  show "fst (handleMcpRequest ex_search (mcp_call ''search_memories'' [(js ''query'', JStr (js ''tabs''))]) empty_env) =
     Inl TypeError"
  proof -
    have "handleMcpRequest ex_search (mcp_call ''search_memories'' [(js ''query'', JStr (js ''tabs''))]) empty_env =
        (case searchMemories ex_search (JStr (js ''tabs'')) (JNum (Fin 5)) empty_env of
           (Inl e, s') \<Rightarrow> (Inl e, s')
         | (Inr memories, s') \<Rightarrow>
             if memories = [] then
               (Inr (mcpToolResult (JNum (Fin 1)) (js ''No memories found matching the query.'') False), s')
             else
               (case format_memories 0 memories of
                  Inl e \<Rightarrow> (Inl e, s')
                | Inr lines \<Rightarrow>
                    (Inr (mcpToolResult (JNum (Fin 1))
                            (js ''Found '' @ show_nat (length memories) @
                             js '' relevant memories:'' @ [0x0A, 0x0A] @ join_strings [0x0A] lines)
                            False),
                     s')))"
      by (simp add: handleMcpRequest_def tools_call_def Let_def opt_prop_def or_else_def)
    then show ?thesis
      unfolding ex_search_normalized
      by (simp only: prod.case sum.case list.distinct if_False format_true_raises fst_conv)
  qed
qed

text \<open>
  When the resync request gets no response, \<open>saveMemory\<close> and \<^verbatim>\<open>POST /memories\<close>
  raise the error, although the Memory is in the bucket.
\<close>

theorem unanswered_resync_fails_create:
  "fst (saveMemory ex_unreachable (JStr (js ''Always use tabs'')) JUndefined JUndefined empty_env) = Inl NetworkError \<and>
   MEMORIES_BUCKET (snd (saveMemory ex_unreachable (JStr (js ''Always use tabs'')) JUndefined JUndefined empty_env))
     (memory_key (js ''0b0e6a7c'')) \<noteq> None \<and>
   fst (post_memories ex_unreachable (JObj [(js ''content'', JStr (js ''Always use tabs''))]) empty_env) =
     Inl NetworkError"
proof -
  have f: "fst (triggerResync ex_unreachable s) = Inl NetworkError" for s
    by (simp add: triggerResync_no_response ex_unreachable_def)
  have u: "randomUUID ex_unreachable = js ''0b0e6a7c''"
    by (simp add: ex_unreachable_def ex_rejected_def)
  from saveMemory_array [of JUndefined "[]" ex_unreachable "JStr (js ''Always use tabs'')" JUndefined empty_env]
  obtain blob where sv: "saveMemory ex_unreachable (JStr (js ''Always use tabs'')) JUndefined JUndefined empty_env =
      (Inl NetworkError,
       \<lparr>MEMORIES_BUCKET =
          (MEMORIES_BUCKET empty_env)(memory_key (js ''0b0e6a7c'') \<mapsto>
             \<lparr>obj_body = blob, obj_contentType = js ''application/json'',
              obj_customMetadata =
                [(js ''tags'', JStr (join_items (js '','') [])), (js ''source'', JStr (js ''user'')),
                 (js ''createdAt'', JStr (toISOString (clock ex_unreachable 0)))]\<rparr>),
        calls = calls empty_env @ [R2Put (memory_key (js ''0b0e6a7c'')), ResyncRequest]\<rparr>)"
    using f u by auto
  show ?thesis
    using sv by (simp add: post_memories_def read_prop_def)
qed

text \<open>
  C8, at the content \<^verbatim>\<open>true\<close>: \<^verbatim>\<open>POST /memories\<close> refuses it with 400 and stores
  nothing, the tool \<^verbatim>\<open>save_memory\<close> saves it and reports success.
\<close>

theorem surfaces_differ_on_boolean_content:
  "post_memories ex_rejected (JObj [(js ''content'', JBool True)]) empty_env =
     (Inr (json_response 400 (JObj [(js ''error'', JStr (js ''content is required and must be a string''))])),
      empty_env) \<and>
   fst (handleMcpRequest ex_rejected (mcp_call ''save_memory'' [(js ''content'', JBool True)]) empty_env) =
     Inr (mcpToolResult (JNum (Fin 1)) (js ''Memory saved successfully with ID: '' @ js ''0b0e6a7c'') False) \<and>
   MEMORIES_BUCKET
     (snd (handleMcpRequest ex_rejected (mcp_call ''save_memory'' [(js ''content'', JBool True)]) empty_env))
     (memory_key (js ''0b0e6a7c'')) \<noteq> None"
proof -
  have u: "randomUUID ex_rejected = js ''0b0e6a7c''"
    by (simp add: ex_rejected_def)
  obtain res where f: "fst (triggerResync ex_rejected empty_env) = Inr res"
    using triggerResync_answered [of ex_rejected _ empty_env] by (auto simp: ex_rejected_def)
  from saveMemory_array [of "JArr []" "[]" ex_rejected "JBool True" "JStr (js ''user'')" empty_env]
  obtain blob where sv: "saveMemory ex_rejected (JBool True) (JArr []) (JStr (js ''user'')) empty_env =
      (Inr (new_memory ex_rejected (JBool True) (JArr []) (JStr (js ''user''))),
       \<lparr>MEMORIES_BUCKET =
          (MEMORIES_BUCKET empty_env)(memory_key (js ''0b0e6a7c'') \<mapsto>
             \<lparr>obj_body = blob, obj_contentType = js ''application/json'',
              obj_customMetadata =
                [(js ''tags'', JStr (join_items (js '','') [])), (js ''source'', JStr (js ''user'')),
                 (js ''createdAt'', JStr (toISOString (clock ex_rejected 0)))]\<rparr>),
        calls = calls empty_env @ [R2Put (memory_key (js ''0b0e6a7c'')), ResyncRequest]\<rparr>)"
    using f u by auto
  have "post_memories ex_rejected (JObj [(js ''content'', JBool True)]) empty_env =
     (Inr (json_response 400 (JObj [(js ''error'', JStr (js ''content is required and must be a string''))])),
      empty_env)"
    by (simp add: post_memories_def read_prop_def)
  moreover have "handleMcpRequest ex_rejected (mcp_call ''save_memory'' [(js ''content'', JBool True)]) empty_env =
      (Inr (mcpToolResult (JNum (Fin 1)) (js ''Memory saved successfully with ID: '' @ js ''0b0e6a7c'') False),
       snd (saveMemory ex_rejected (JBool True) (JArr []) (JStr (js ''user'')) empty_env))"
    using sv u by (simp add: handleMcpRequest_def tools_call_def Let_def opt_prop_def or_else_def)
  ultimately show ?thesis
    using sv by simp
qed

section \<open>The statements at the example inputs\<close>

lemma ex_rejected_fields [simp]:
  "randomUUID ex_rejected = js ''0b0e6a7c''"
  "clock ex_rejected = (\<lambda>i. 1700000000000)"
  "fetch_reply ex_rejected =
     Response (JObj [(js ''success'', JBool False),
                     (js ''errors'', JArr [JObj [(js ''message'', JStr (js ''quota exceeded''))]])])"
  by (simp_all add: ex_rejected_def)

lemma memory_key_eq [simp]: "memory_key a = memory_key b \<longleftrightarrow> a = b"
  by (simp add: memory_key_def)

lemma ex_survives:
  "\<exists>s'. saveMemory ex_rejected (JStr (js ''Always use tabs'')) (JArr [JStr (js ''style'')]) (JStr (js ''user''))
            empty_env = (Inr ex_memory, s') \<and>
        stored_value s' (memory_key (js ''0b0e6a7c'')) = Some ex_memory"
proof -
  have n: "\<not> nullish (JObj [(js ''success'', JBool False),
                     (js ''errors'', JArr [JObj [(js ''message'', JStr (js ''quota exceeded''))]])])"
    by simp
  have t: "JArr [JStr (js ''style'')] = JUndefined \<or> JArr [JStr (js ''style'')] = JArr (map JStr [js ''style''])"
    by simp
  have u: "JStr (js ''user'') = JUndefined \<or> JStr (js ''user'') = JStr (js ''user'')"
    by simp
  obtain res where "fst (triggerResync ex_rejected empty_env) = Inr res"
    using triggerResync_answered [OF ex_rejected_fields(3) n, of empty_env] by auto
  with saveMemory_stored [OF t u, of ex_rejected "js ''Always use tabs''" empty_env]
  show ?thesis
    by (auto simp: ex_memory_def)
qed

lemma ex_created_saved:
  "saveMemory ex_rejected (JStr (js ''Always use tabs'')) (JArr [JStr (js ''style'')]) (JStr (js ''user'')) empty_env =
     (Inr ex_memory, ex_created)"
  using ex_survives by (auto simp: ex_created_def)

lemma ex_created_bucket:
  "stored_value ex_created (memory_key (js ''0b0e6a7c'')) = Some ex_memory"
  "MEMORIES_BUCKET ex_created (memory_key (js ''4f1d22aa'')) = None"
  "stored_value ex_created (memory_key (js ''4f1d22aa'')) = None"
proof -
  show "stored_value ex_created (memory_key (js ''0b0e6a7c'')) = Some ex_memory"
    using ex_survives by (auto simp: ex_created_def)
  from saveMemory_array [of "JArr [JStr (js ''style'')]" "[JStr (js ''style'')]" ex_rejected
      "JStr (js ''Always use tabs'')" "JStr (js ''user'')" empty_env]
  show "MEMORIES_BUCKET ex_created (memory_key (js ''4f1d22aa'')) = None"
    by (auto simp: ex_created_def empty_env_def)
  then show "stored_value ex_created (memory_key (js ''4f1d22aa'')) = None"
    by (simp add: stored_value_def)
qed

theorem create_survives_rejection_witness:
  "\<exists>s'. saveMemory ex_rejected (JStr (js ''Always use tabs'')) (JArr [JStr (js ''style'')]) (JStr (js ''user''))
            empty_env = (Inr ex_memory, s') \<and>
        stored_value s' (memory_key (js ''0b0e6a7c'')) = Some ex_memory \<and>
        fst (read_listed [memory_key (js ''0b0e6a7c'')] [] s') = Inr [ex_memory] \<and>
        new_memory (ex_rejected\<lparr>fetch_reply := NoResponse\<rparr>) (JStr (js ''Always use tabs''))
          (JArr [JStr (js ''style'')]) (JStr (js ''user'')) = ex_memory"
proof -
  have n: "\<not> nullish (JObj [(js ''success'', JBool False),
                     (js ''errors'', JArr [JObj [(js ''message'', JStr (js ''quota exceeded''))]])])"
    by simp
  have t: "JArr [JStr (js ''style'')] = JUndefined \<or> JArr [JStr (js ''style'')] = JArr (map JStr [js ''style''])"
    by simp
  have u: "JStr (js ''user'') = JUndefined \<or> JStr (js ''user'') = JStr (js ''user'') \<or>
           JStr (js ''user'') = JStr (js ''auto'')"
    by simp
  from create_survives_rejection [OF ex_rejected_fields(3) n t u, of "js ''Always use tabs''" empty_env NoResponse]
  show ?thesis
    unfolding ex_memory_def by (simp del: read_listed.simps)
qed

theorem create_then_fetch_witness:
  "(\<exists>s''. get_memories ex_fetch None None ex_created =
      (Inr (json_response 200 (JObj [(js ''memories'', JArr [ex_memory]), (js ''cursor'', JNull)])), s'')) \<and>
   get_prop ex_memory (js ''content'') = JStr (js ''Always use tabs'') \<and>
   get_prop ex_memory (js ''tags'') = JArr [JStr (js ''style'')] \<and>
   get_prop ex_memory (js ''source'') = JStr (js ''user'') \<and>
   (\<exists>t \<le> 1700000000500. get_prop ex_memory (js ''createdAt'') = JStr (toISOString t))"
proof -
  have l: "listed_objects (list_reply ex_fetch) = [memory_key (js_toString (get_prop ex_memory (js ''id'')))]"
    by (simp add: ex_fetch_def ex_memory_def)
  have c: "clock ex_rejected 0 \<le> 1700000000500"
    by simp
  have t: "JArr [JStr (js ''style'')] = JUndefined \<or> JArr [JStr (js ''style'')] = JArr (map JStr [js ''style''])"
    by simp
  have u: "JStr (js ''user'') = JUndefined \<or> JStr (js ''user'') = JStr (js ''user'') \<or>
           JStr (js ''user'') = JStr (js ''auto'')"
    by simp
  from create_then_fetch [OF t u ex_created_saved l c, of None None]
  show ?thesis
    by (simp add: ex_fetch_def)
qed

theorem delete_memory_idempotent_witness:
  "\<exists>b1 s1 b2 s2.
     delete_memory ex_rejected (js ''0b0e6a7c'') ex_created = (Inr b1, s1) \<and> res_status b1 = 200 \<and>
     get_prop (res_json b1) (js ''success'') = JBool True \<and>
     fst (r2_get (memory_key (js ''0b0e6a7c'')) s1) = None \<and>
     delete_memory ex_rejected (js ''0b0e6a7c'') s1 = (Inr b2, s2) \<and> res_status b2 = 200 \<and>
     get_prop (res_json b2) (js ''success'') = JBool True \<and>
     MEMORIES_BUCKET s2 = MEMORIES_BUCKET s1"
proof -
  have n: "\<not> nullish (JObj [(js ''success'', JBool False),
                     (js ''errors'', JArr [JObj [(js ''message'', JStr (js ''quota exceeded''))]])])"
    by simp
  show ?thesis
    by (rule delete_memory_idempotent [OF ex_rejected_fields(3) n ex_rejected_fields(3) n])
qed

theorem validation_errors_witness:
  "post_memories ex_rejected (JObj [(js ''content'', JStr [])]) empty_env =
     (Inr (json_response 400 (JObj [(js ''error'', JStr (js ''content is required and must be a string''))])),
      empty_env) \<and>
   get_memories_search ex_rejected (Some []) None empty_env =
     (Inr (json_response 400 (JObj [(js ''error'', JStr (js ''Query parameter q is required''))])), empty_env) \<and>
   handleMcpRequest ex_rejected (mcp_call ''save_memory'' [(js ''content'', JNull)]) empty_env =
     (Inr (mcpToolResult (JNum (Fin 1)) (js ''Error: content is required'') True), empty_env) \<and>
   handleMcpRequest ex_rejected (mcp_call ''search_memories'' []) empty_env =
     (Inr (mcpToolResult (JNum (Fin 1)) (js ''Error: query is required'') True), empty_env)"
  using validation_errors [of "JObj [(js ''content'', JStr [])]" ex_rejected empty_env "Some []" None
      "mcp_call ''save_memory'' [(js ''content'', JNull)]"]
    validation_errors [of "JObj [(js ''content'', JStr [])]" ex_rejected empty_env "Some []" None
      "mcp_call ''search_memories'' []"]
  by (simp add: opt_prop_def)

theorem get_memories_omits_missing_witness:
  "\<exists>s'. get_memories ex_listing None None ex_created =
          (Inr (json_response 200 (JObj [(js ''memories'', JArr [ex_memory]), (js ''cursor'', JNull)])), s')"
proof -
  have "\<forall>key \<in> set (listed_objects (list_reply ex_listing)).
          MEMORIES_BUCKET ex_created key \<noteq> None \<longrightarrow> stored_value ex_created key \<noteq> None"
    by (simp add: ex_listing_def ex_created_bucket)
  from get_memories_omits_missing [OF this, of None None]
  show ?thesis
    by (simp add: ex_listing_def ex_created_bucket List.map_filter_simps)
qed


theorem surfaces_differ_on_boolean_content_witness:
  "MEMORIES_BUCKET
     (snd (post_memories ex_rejected (JObj [(js ''content'', JBool True)]) empty_env))
     (memory_key (js ''0b0e6a7c'')) = None \<and>
   MEMORIES_BUCKET
     (snd (handleMcpRequest ex_rejected (mcp_call ''save_memory'' [(js ''content'', JBool True)]) empty_env))
     (memory_key (js ''0b0e6a7c'')) \<noteq> None"
  using surfaces_differ_on_boolean_content by (simp add: empty_env_def)

end
